theory Spec2Isabelle
  imports Complex_Main
begin

section \<open>JavaScript values\<close>

text \<open>
  The watch-later stores keep untyped JavaScript values: whatever \<^verbatim>\<open>JSON.parse\<close> returns
  for the stored text, and whatever object the render code passes to the toggle. A number
  is a double; the model keeps the three values that are not rationals apart and reads a
  finite double as the rational it denotes (\<^verbatim>\<open>+0\<close> and \<^verbatim>\<open>-0\<close>, which neither
  \<^verbatim>\<open>===\<close> nor truthiness nor JSON tell apart, are both \<open>Fin 0\<close>). An object is the list
  of its own properties in insertion order; the first binding of a name is the property.
\<close>

datatype number = NaN | PosInf | NegInf | Fin rat

datatype jsval =
    JUndefined
  | JNull
  | JBool bool
  | JNum number
  | JStr string
  | JArr "jsval list"
  | JObj "(string \<times> jsval) list"

datatype error = SyntaxError | TypeError

text \<open>Truthiness, as \<^verbatim>\<open>if (v)\<close>, \<^verbatim>\<open>v ? a : b\<close> and \<^verbatim>\<open>v || w\<close> test it.\<close>

fun truthy :: "jsval \<Rightarrow> bool" where
  "truthy JUndefined = False"
| "truthy JNull = False"
| "truthy (JBool b) = b"
| "truthy (JNum n) = (n \<noteq> NaN \<and> n \<noteq> Fin 0)"
| "truthy (JStr s) = (s \<noteq> [])"
| "truthy (JArr xs) = True"
| "truthy (JObj kvs) = True"

text \<open>
  Strict equality \<^verbatim>\<open>a === b\<close> between a value read from a freshly parsed list and a value
  of the caller: primitives of the same type with the same value, \<^verbatim>\<open>NaN\<close> equal to
  nothing. Two arrays or objects are equal only when they are the same reference, which a
  freshly parsed value never is.
\<close>

fun strict_eq :: "jsval \<Rightarrow> jsval \<Rightarrow> bool" where
  "strict_eq JUndefined JUndefined = True"
| "strict_eq JNull JNull = True"
| "strict_eq (JBool a) (JBool b) = (a = b)"
| "strict_eq (JNum a) (JNum b) = (a \<noteq> NaN \<and> a = b)"
| "strict_eq (JStr a) (JStr b) = (a = b)"
| "strict_eq a b = False"

fun nullish :: "jsval \<Rightarrow> bool" where
  "nullish JUndefined = True"
| "nullish JNull = True"
| "nullish v = False"

text \<open>
  Property read \<^verbatim>\<open>v.k\<close> for the names the stores use (\<^verbatim>\<open>id\<close>, \<^verbatim>\<open>media_type\<close>,
  \<^verbatim>\<open>type\<close>, \<^verbatim>\<open>vote_average\<close>), none of which a prototype defines: an own property of an
  object, \<^verbatim>\<open>undefined\<close> on every other non-nullish value, a \<^verbatim>\<open>TypeError\<close> on
  \<^verbatim>\<open>null\<close> and \<^verbatim>\<open>undefined\<close>.
\<close>

fun own_prop :: "jsval \<Rightarrow> string \<Rightarrow> jsval" where
  "own_prop (JObj kvs) k = (case map_of kvs k of None \<Rightarrow> JUndefined | Some v \<Rightarrow> v)"
| "own_prop v k = JUndefined"

definition get_prop :: "jsval \<Rightarrow> string \<Rightarrow> error + jsval" where
  "get_prop v k = (if nullish v then Inl TypeError else Inr (own_prop v k))"

text \<open>
  What \<^verbatim>\<open>JSON.parse(JSON.stringify(v))\<close> returns: a property whose value is
  \<^verbatim>\<open>undefined\<close> is dropped, \<^verbatim>\<open>undefined\<close> inside an array and every number that is not
  finite become \<^verbatim>\<open>null\<close>.
\<close>

fun json_norm :: "jsval \<Rightarrow> jsval" where
  "json_norm JUndefined = JNull"
| "json_norm JNull = JNull"
| "json_norm (JBool b) = JBool b"
| "json_norm (JNum n) = (case n of Fin r \<Rightarrow> JNum (Fin r) | _ \<Rightarrow> JNull)"
| "json_norm (JStr s) = JStr s"
| "json_norm (JArr xs) = JArr (map json_norm xs)"
| "json_norm (JObj kvs) =
     JObj (map (\<lambda>(k, v). (k, json_norm v)) (filter (\<lambda>(k, v). v \<noteq> JUndefined) kvs))"

text \<open>
  The array methods. The callback's exception leaves the method at once; a receiver that is
  not an array has no such method and the call is a \<^verbatim>\<open>TypeError\<close>. The index \<open>-1\<close> of
  \<^verbatim>\<open>findIndex\<close> is \<open>None\<close>.
\<close>

fun as_array :: "jsval \<Rightarrow> error + jsval list" where
  "as_array (JArr xs) = Inr xs"
| "as_array v = Inl TypeError"

fun findIndex :: "(jsval \<Rightarrow> error + bool) \<Rightarrow> jsval list \<Rightarrow> error + nat option" where
  "findIndex p [] = Inr None"
| "findIndex p (x # xs) =
     (case p x of
        Inl e \<Rightarrow> Inl e
      | Inr True \<Rightarrow> Inr (Some 0)
      | Inr False \<Rightarrow>
          (case findIndex p xs of
             Inl e \<Rightarrow> Inl e
           | Inr None \<Rightarrow> Inr None
           | Inr (Some i) \<Rightarrow> Inr (Some (Suc i))))"

fun some_js :: "(jsval \<Rightarrow> error + bool) \<Rightarrow> jsval list \<Rightarrow> error + bool" where
  "some_js p [] = Inr False"
| "some_js p (x # xs) =
     (case p x of
        Inl e \<Rightarrow> Inl e
      | Inr True \<Rightarrow> Inr True
      | Inr False \<Rightarrow> some_js p xs)"

text \<open>\<^verbatim>\<open>list.splice(idx, 1)\<close> and \<^verbatim>\<open>list.push(item)\<close>, returning the list they leave.\<close>

definition splice1 :: "nat \<Rightarrow> jsval list \<Rightarrow> jsval list" where
  "splice1 idx list = take idx list @ drop (Suc idx) list"

definition push :: "jsval \<Rightarrow> jsval list \<Rightarrow> jsval list" where
  "push item list = list @ [item]"

section \<open>localStorage\<close>

text \<open>
  A stored string is classified by what the code can observe of it: the empty string
  (falsy), a text that \<^verbatim>\<open>JSON.parse\<close> rejects, or the text \<^verbatim>\<open>JSON.stringify(v)\<close> of a
  value. \<^verbatim>\<open>getItem\<close> returns \<^verbatim>\<open>null\<close> (\<open>None\<close>) for a key that was never set.
\<close>

datatype stored = EmptyText | BadText | JsonText jsval

type_synonym storage = "string \<Rightarrow> stored option"

fun JSON_parse :: "stored \<Rightarrow> error + jsval" where
  "JSON_parse EmptyText = Inl SyntaxError"
| "JSON_parse BadText = Inl SyntaxError"
| "JSON_parse (JsonText v) = Inr (json_norm v)"

definition JSON_stringify :: "jsval list \<Rightarrow> stored" where
  "JSON_stringify list = JsonText (JArr list)"

definition setItem :: "string \<Rightarrow> stored \<Rightarrow> storage \<Rightarrow> storage" where
  "setItem k t st = st(k \<mapsto> t)"

section \<open>The Aurora store (explore.js, movie.js, watch-later.js, the home and TV pages)\<close>

definition WATCH_LATER_KEY :: string where
  "WATCH_LATER_KEY = ''watchLaterItems''"

text \<open>
  explore.js and watch-later.js:
  \<^verbatim>\<open>try { return JSON.parse(localStorage.getItem(WATCH_LATER_KEY) || '[]'); } catch { return []; }\<close>
\<close>

definition getWatchLater :: "storage \<Rightarrow> jsval" where
  "getWatchLater st =
     (case JSON_parse (case st WATCH_LATER_KEY of
                         None \<Rightarrow> JsonText (JArr [])
                       | Some EmptyText \<Rightarrow> JsonText (JArr [])
                       | Some t \<Rightarrow> t) of
        Inl e \<Rightarrow> JArr []
      | Inr v \<Rightarrow> v)"

text \<open>
  movie.js, the home page and the TV page:
  \<^verbatim>\<open>try { const stored = ...getItem(WATCH_LATER_KEY); return stored ? JSON.parse(stored) : []; } catch { return []; }\<close>
\<close>

definition getWatchLater_movie :: "storage \<Rightarrow> jsval" where
  "getWatchLater_movie st =
     (case st WATCH_LATER_KEY of
        None \<Rightarrow> JArr []
      | Some EmptyText \<Rightarrow> JArr []
      | Some t \<Rightarrow> (case JSON_parse t of Inl e \<Rightarrow> JArr [] | Inr v \<Rightarrow> v))"

definition saveWatchLater :: "jsval list \<Rightarrow> storage \<Rightarrow> storage" where
  "saveWatchLater list st = setItem WATCH_LATER_KEY (JSON_stringify list) st"

text \<open>The callback \<^verbatim>\<open>(i) => i.id === item.id && i.media_type === item.media_type\<close>.\<close>

definition same_item :: "jsval \<Rightarrow> jsval \<Rightarrow> error + bool" where
  "same_item item i =
     (case get_prop i ''id'' of
        Inl e \<Rightarrow> Inl e
      | Inr a \<Rightarrow>
          (case get_prop item ''id'' of
             Inl e \<Rightarrow> Inl e
           | Inr b \<Rightarrow>
               if strict_eq a b then
                 (case get_prop i ''media_type'' of
                    Inl e \<Rightarrow> Inl e
                  | Inr c \<Rightarrow>
                      (case get_prop item ''media_type'' of
                         Inl e \<Rightarrow> Inl e
                       | Inr d \<Rightarrow> Inr (strict_eq c d)))
               else Inr False))"

text \<open>
  \<^verbatim>\<open>toggleWatchLater(item)\<close> of explore.js (the copies in movie.js and on the home and TV
  pages differ in layout only): the flag returned is \<^verbatim>\<open>idx === -1\<close>.
\<close>

definition toggleWatchLater :: "jsval \<Rightarrow> storage \<Rightarrow> error + (bool \<times> storage)" where
  "toggleWatchLater item st =
     (case as_array (getWatchLater st) of
        Inl e \<Rightarrow> Inl e
      | Inr list \<Rightarrow>
          (case findIndex (same_item item) list of
             Inl e \<Rightarrow> Inl e
           | Inr idx \<Rightarrow>
               let list' = (case idx of Some i \<Rightarrow> splice1 i list | None \<Rightarrow> push item list)
               in Inr (idx = None, setItem WATCH_LATER_KEY (JSON_stringify list') st)))"

definition toggleWatchLater_movie :: "jsval \<Rightarrow> storage \<Rightarrow> error + (bool \<times> storage)" where
  "toggleWatchLater_movie item st =
     (case as_array (getWatchLater_movie st) of
        Inl e \<Rightarrow> Inl e
      | Inr list \<Rightarrow>
          (case findIndex (same_item item) list of
             Inl e \<Rightarrow> Inl e
           | Inr idx \<Rightarrow>
               let list' = (case idx of Some i \<Rightarrow> splice1 i list | None \<Rightarrow> push item list)
               in Inr (idx = None, setItem WATCH_LATER_KEY (JSON_stringify list') st)))"

text \<open>
  The pre-check of a page that knows the identifier and the kind (movie.js:
  \<^verbatim>\<open>getWatchLater().some((i) => i.id === movie.id && i.media_type === 'movie')\<close>) and the
  pre-check of a card (explore.js, with \<^verbatim>\<open>item.id\<close> and \<^verbatim>\<open>item.media_type\<close>).
\<close>

definition key_match :: "jsval \<Rightarrow> jsval \<Rightarrow> jsval \<Rightarrow> error + bool" where
  "key_match idv kind i =
     (case get_prop i ''id'' of
        Inl e \<Rightarrow> Inl e
      | Inr a \<Rightarrow>
          if strict_eq a idv then
            (case get_prop i ''media_type'' of
               Inl e \<Rightarrow> Inl e
             | Inr c \<Rightarrow> Inr (strict_eq c kind))
          else Inr False)"

definition saved_precheck :: "jsval \<Rightarrow> jsval \<Rightarrow> storage \<Rightarrow> error + bool" where
  "saved_precheck idv kind st =
     (case as_array (getWatchLater_movie st) of
        Inl e \<Rightarrow> Inl e
      | Inr list \<Rightarrow> some_js (key_match idv kind) list)"

definition card_saved :: "jsval \<Rightarrow> storage \<Rightarrow> error + bool" where
  "card_saved item st =
     (case as_array (getWatchLater st) of
        Inl e \<Rightarrow> Inl e
      | Inr list \<Rightarrow> some_js (same_item item) list)"

text \<open>
  The remove button of a card on the list page (watch-later.js): the list is saved only
  when a record was found.
\<close>

definition removeAt :: "jsval \<Rightarrow> storage \<Rightarrow> error + storage" where
  "removeAt item st =
     (case as_array (getWatchLater st) of
        Inl e \<Rightarrow> Inl e
      | Inr list \<Rightarrow>
          (case findIndex (same_item item) list of
             Inl e \<Rightarrow> Inl e
           | Inr (Some idx) \<Rightarrow> Inr (saveWatchLater (splice1 idx list) st)
           | Inr None \<Rightarrow> Inr st))"

text \<open>
  The rating of a card (watch-later.js, explore.js):
  \<^verbatim>\<open>item.vote_average ? item.vote_average.toFixed(1) : '-'\<close>, the placeholder being an en
  dash, here the three bytes of its UTF-8 encoding. \<^verbatim>\<open>Number.prototype.toFixed\<close> belongs
  to the host and is a parameter; a truthy value that is not a number has no such method.
\<close>

definition EN_DASH :: string where
  "EN_DASH = [CHR 0xE2, CHR 0x80, CHR 0x93]"

definition card_rating :: "(number \<Rightarrow> string) \<Rightarrow> jsval \<Rightarrow> error + string" where
  "card_rating toFixed1 item =
     (case get_prop item ''vote_average'' of
        Inl e \<Rightarrow> Inl e
      | Inr v \<Rightarrow>
          if truthy v then (case v of JNum n \<Rightarrow> Inr (toFixed1 n) | _ \<Rightarrow> Inl TypeError)
          else Inr EN_DASH)"

section \<open>The StreamVerse store (js/main.js)\<close>

definition WATCH_LATER_KEY_sv :: string where
  "WATCH_LATER_KEY_sv = ''streamVerseWatchLater''"

text \<open>\<^verbatim>\<open>const list = localStorage.getItem(KEY); return list ? JSON.parse(list) : [];\<close>\<close>

definition getWatchLaterList :: "storage \<Rightarrow> error + jsval" where
  "getWatchLaterList st =
     (case st WATCH_LATER_KEY_sv of
        None \<Rightarrow> Inr (JArr [])
      | Some EmptyText \<Rightarrow> Inr (JArr [])
      | Some t \<Rightarrow> JSON_parse t)"

definition saveWatchLaterList :: "jsval list \<Rightarrow> storage \<Rightarrow> storage" where
  "saveWatchLaterList list st = setItem WATCH_LATER_KEY_sv (JSON_stringify list) st"

text \<open>The callback \<^verbatim>\<open>item => item.id === id\<close>.\<close>

definition id_match :: "jsval \<Rightarrow> jsval \<Rightarrow> error + bool" where
  "id_match idv i =
     (case get_prop i ''id'' of Inl e \<Rightarrow> Inl e | Inr a \<Rightarrow> Inr (strict_eq a idv))"

definition checkWatchLaterStatus :: "jsval \<Rightarrow> storage \<Rightarrow> error + bool" where
  "checkWatchLaterStatus idv st =
     (case getWatchLaterList st of
        Inl e \<Rightarrow> Inl e
      | Inr v \<Rightarrow>
          (case as_array v of
             Inl e \<Rightarrow> Inl e
           | Inr list \<Rightarrow> some_js (id_match idv) list))"

text \<open>
  \<^verbatim>\<open>toggleWatchLater(id, itemData)\<close> of js/main.js has no \<^verbatim>\<open>return\<close>: the call evaluates
  to \<^verbatim>\<open>undefined\<close>.
\<close>

definition toggleWatchLater_sv :: "jsval \<Rightarrow> jsval \<Rightarrow> storage \<Rightarrow> error + (jsval \<times> storage)" where
  "toggleWatchLater_sv idv itemData st =
     (case getWatchLaterList st of
        Inl e \<Rightarrow> Inl e
      | Inr v \<Rightarrow>
          (case as_array v of
             Inl e \<Rightarrow> Inl e
           | Inr list \<Rightarrow>
               (case findIndex (id_match idv) list of
                  Inl e \<Rightarrow> Inl e
                | Inr itemIndex \<Rightarrow>
                    let list' = (case itemIndex of
                                   Some i \<Rightarrow> splice1 i list
                                 | None \<Rightarrow> push itemData list)
                    in Inr (JUndefined, saveWatchLaterList list' st))))"

text \<open>\<^verbatim>\<open>formatRating(vote)\<close>: \<^verbatim>\<open>vote ? vote.toFixed(1) : 'N/A'\<close>.\<close>

definition formatRating :: "(number \<Rightarrow> string) \<Rightarrow> jsval \<Rightarrow> error + string" where
  "formatRating toFixed1 vote =
     (if truthy vote then (case vote of JNum n \<Rightarrow> Inr (toFixed1 n) | _ \<Rightarrow> Inl TypeError)
      else Inr ''N/A'')"

section \<open>The DOM controls of js/main.js\<close>

text \<open>
  A save control as the render code builds it: a button of class \<^verbatim>\<open>btn-add-list\<close> with its
  \<^verbatim>\<open>data-id\<close> attribute, its class list, its accessible label, and at most one child
  of class \<^verbatim>\<open>material-icons-outlined\<close>, which \<^verbatim>\<open>querySelector\<close> returns (or
  \<^verbatim>\<open>null\<close>). No two buttons share an icon.
\<close>

record icon =
  textContent :: string
  fontFamily :: string

record button =
  dataset_id :: "string option"
  icon_el :: "icon option"
  classList :: "string list"
  ariaLabel :: "string option"

text \<open>\<^verbatim>\<open>classList.add\<close> and \<^verbatim>\<open>classList.remove\<close> on the ordered set of class names.\<close>

definition classList_add :: "string \<Rightarrow> string list \<Rightarrow> string list" where
  "classList_add c cs = (if c \<in> set cs then cs else cs @ [c])"

definition classList_remove :: "string \<Rightarrow> string list \<Rightarrow> string list" where
  "classList_remove c cs = filter (\<lambda>d. d \<noteq> c) cs"

text \<open>
  \<^verbatim>\<open>updateWatchLaterButtonUI(button, id)\<close>: the store is read before the icon is touched,
  and a button without icon raises at the first write, before anything is changed.
\<close>

definition updateWatchLaterButtonUI :: "button \<Rightarrow> jsval \<Rightarrow> storage \<Rightarrow> error + button" where
  "updateWatchLaterButtonUI btn idv st =
     (case checkWatchLaterStatus idv st of
        Inl e \<Rightarrow> Inl e
      | Inr saved \<Rightarrow>
          (case icon_el btn of
             None \<Rightarrow> Inl TypeError
           | Some ic \<Rightarrow>
               if saved then
                 Inr (btn\<lparr>icon_el := Some (ic\<lparr>textContent := ''bookmark'',
                                              fontFamily := ''Material Icons''\<rparr>),
                         classList := classList_add ''added'' (classList btn),
                         ariaLabel := Some ''Remove from Watch Later''\<rparr>)
               else
                 Inr (btn\<lparr>icon_el := Some (ic\<lparr>textContent := ''bookmark_border'',
                                              fontFamily := ''Material Icons Outlined''\<rparr>),
                         classList := classList_remove ''added'' (classList btn),
                         ariaLabel := Some ''Add to Watch Later''\<rparr>)))"

text \<open>
  \<^verbatim>\<open>buttons.forEach(...)\<close>: an exception of the callback ends the loop and leaves the
  controls already visited updated; the result is the exception, if any, with the controls.
\<close>

fun forEach_button :: "(button \<Rightarrow> error + button) \<Rightarrow> button list \<Rightarrow> error option \<times> button list" where
  "forEach_button f [] = (None, [])"
| "forEach_button f (b # bs) =
     (case f b of
        Inl e \<Rightarrow> (Some e, b # bs)
      | Inr b' \<Rightarrow> (case forEach_button f bs of (r, bs') \<Rightarrow> (r, b' # bs')))"

text \<open>
  \<^verbatim>\<open>updateAllWatchLaterButtons()\<close>, over the buttons \<^verbatim>\<open>querySelectorAll\<close> finds.
  \<^verbatim>\<open>parseInt\<close> belongs to the host and is a parameter; it is applied to the string of
  the attribute, \<^verbatim>\<open>"undefined"\<close> when the attribute is missing.
\<close>

definition updateAllWatchLaterButtons ::
  "(string \<Rightarrow> number) \<Rightarrow> storage \<Rightarrow> button list \<Rightarrow> error option \<times> button list" where
  "updateAllWatchLaterButtons parseInt st buttons =
     forEach_button
       (\<lambda>btn. let idv = JNum (parseInt (case dataset_id btn of None \<Rightarrow> ''undefined'' | Some s \<Rightarrow> s))
              in if truthy idv then updateWatchLaterButtonUI btn idv st else Inr btn)
       buttons"

text \<open>The click handler of js/main.js calls \<^verbatim>\<open>toggleWatchLater(itemData.id, itemData)\<close>.\<close>

definition toggle_click_sv :: "jsval \<Rightarrow> storage \<Rightarrow> error + (jsval \<times> storage)" where
  "toggle_click_sv itemData st =
     (case get_prop itemData ''id'' of
        Inl e \<Rightarrow> Inl e
      | Inr idv \<Rightarrow> toggleWatchLater_sv idv itemData st)"

section \<open>The vocabulary of the specification\<close>

text \<open>
  A record is an object. An item of the data model has a finite number as \<^verbatim>\<open>id\<close> and a
  string as media kind. Two values have the same key when both fields are strictly equal.
\<close>

fun is_record :: "jsval \<Rightarrow> bool" where
  "is_record (JObj kvs) = True"
| "is_record v = False"

definition is_item :: "jsval \<Rightarrow> bool" where
  "is_item x =
     ((case own_prop x ''id'' of JNum (Fin n) \<Rightarrow> True | _ \<Rightarrow> False) \<and>
      (case own_prop x ''media_type'' of JStr s \<Rightarrow> True | _ \<Rightarrow> False))"

text \<open>A StreamVerse item, as the click handler builds it: its \<^verbatim>\<open>id\<close> a finite number.\<close>

definition is_item_sv :: "jsval \<Rightarrow> bool" where
  "is_item_sv x = (case own_prop x ''id'' of JNum (Fin n) \<Rightarrow> True | _ \<Rightarrow> False)"

definition has_key :: "jsval \<Rightarrow> jsval \<Rightarrow> jsval \<Rightarrow> bool" where
  "has_key idv kind i =
     (strict_eq (own_prop i ''id'') idv \<and> strict_eq (own_prop i ''media_type'') kind)"

definition same_key :: "jsval \<Rightarrow> jsval \<Rightarrow> bool" where
  "same_key x i = has_key (own_prop x ''id'') (own_prop x ''media_type'') i"

definition key_of :: "jsval \<Rightarrow> jsval \<times> jsval" where
  "key_of v = (own_prop v ''id'', own_prop v ''media_type'')"

definition has_id :: "jsval \<Rightarrow> jsval \<Rightarrow> bool" where
  "has_id idv i = strict_eq (own_prop i ''id'') idv"

text \<open>The key of a StreamVerse record: its \<^verbatim>\<open>id\<close> and its \<^verbatim>\<open>type\<close>.\<close>

definition same_key_sv :: "jsval \<Rightarrow> jsval \<Rightarrow> bool" where
  "same_key_sv x i =
     (strict_eq (own_prop i ''id'') (own_prop x ''id'') \<and>
      strict_eq (own_prop i ''type'') (own_prop x ''type''))"

text \<open>The list without the first element that satisfies a predicate.\<close>

fun remove_first :: "('a \<Rightarrow> bool) \<Rightarrow> 'a list \<Rightarrow> 'a list" where
  "remove_first P [] = []"
| "remove_first P (x # xs) = (if P x then xs else x # remove_first P xs)"

text \<open>No two elements of the list are related.\<close>

fun pairwise_distinct :: "('a \<Rightarrow> 'a \<Rightarrow> bool) \<Rightarrow> 'a list \<Rightarrow> bool" where
  "pairwise_distinct R [] = True"
| "pairwise_distinct R (x # xs) = (\<not> list_ex (R x) xs \<and> pairwise_distinct R xs)"

definition unique_keys :: "jsval list \<Rightarrow> bool" where
  "unique_keys xs = pairwise_distinct same_key xs"

definition unique_keys_sv :: "jsval list \<Rightarrow> bool" where
  "unique_keys_sv xs = pairwise_distinct same_key_sv xs"

text \<open>A finite sequence of toggle calls, each on the store the previous one left.\<close>

fun toggle_all :: "jsval list \<Rightarrow> storage \<Rightarrow> error + storage" where
  "toggle_all [] st = Inr st"
| "toggle_all (x # xs) st =
     (case toggleWatchLater x st of Inl e \<Rightarrow> Inl e | Inr (b, st') \<Rightarrow> toggle_all xs st')"

fun toggle_all_sv :: "jsval list \<Rightarrow> storage \<Rightarrow> error + storage" where
  "toggle_all_sv [] st = Inr st"
| "toggle_all_sv (x # xs) st =
     (case toggle_click_sv x st of Inl e \<Rightarrow> Inl e | Inr (r, st') \<Rightarrow> toggle_all_sv xs st')"

section \<open>Records and stores of the scenarios\<close>

definition movie5 :: jsval where
  "movie5 = JObj [(''id'', JNum (Fin 5)), (''media_type'', JStr ''movie''), (''title'', JStr ''Five'')]"

definition series5 :: jsval where
  "series5 = JObj [(''id'', JNum (Fin 5)), (''media_type'', JStr ''tv''), (''title'', JStr ''Five'')]"

definition sv_movie5 :: jsval where
  "sv_movie5 = JObj [(''id'', JNum (Fin 5)), (''type'', JStr ''movie''), (''title'', JStr ''Five'')]"

definition sv_series5 :: jsval where
  "sv_series5 = JObj [(''id'', JNum (Fin 5)), (''type'', JStr ''tv''), (''title'', JStr ''Five'')]"

definition movie5_retitled :: jsval where
  "movie5_retitled =
     JObj [(''id'', JNum (Fin 5)), (''media_type'', JStr ''movie''), (''title'', JStr ''Cinq'')]"

definition inception :: jsval where
  "inception = JObj [(''id'', JNum (Fin 27205)), (''media_type'', JStr ''movie''),
                     (''title'', JStr ''Inception'')]"

definition sv_inception :: jsval where
  "sv_inception = JObj [(''id'', JNum (Fin 27205)), (''type'', JStr ''movie''),
                        (''title'', JStr ''Inception'')]"

definition series1396 :: jsval where
  "series1396 = JObj [(''id'', JNum (Fin 1396)), (''media_type'', JStr ''tv''),
                      (''title'', JStr ''Breaking Bad'')]"

definition movie1396 :: jsval where
  "movie1396 = JObj [(''id'', JNum (Fin 1396)), (''media_type'', JStr ''movie''),
                     (''title'', JStr ''Movie 1396'')]"

text \<open>The store in which the Aurora key holds the text of a list, and the StreamVerse one.\<close>

definition add_button :: "string \<Rightarrow> button" where
  "add_button i =
     \<lparr>dataset_id = Some i,
      icon_el = Some \<lparr>textContent = ''bookmark_border'', fontFamily = ''Material Icons Outlined''\<rparr>,
      classList = [''btn-icon'', ''card-add-btn'', ''btn-add-list''],
      ariaLabel = Some ''Add to Watch Later''\<rparr>"

text \<open>A stand-in for \<^verbatim>\<open>parseInt\<close> on the two attribute values of the scenarios.\<close>

definition parseInt_scenario :: "string \<Rightarrow> number" where
  "parseInt_scenario s =
     (if s = ''5'' then Fin 5 else if s = ''27205'' then Fin 27205 else NaN)"

definition aurora_store :: "jsval list \<Rightarrow> storage" where
  "aurora_store list = Map.empty(WATCH_LATER_KEY \<mapsto> JsonText (JArr list))"

definition sv_store :: "jsval list \<Rightarrow> storage" where
  "sv_store list = Map.empty(WATCH_LATER_KEY_sv \<mapsto> JsonText (JArr list))"

definition both_stores :: "jsval list \<Rightarrow> jsval list \<Rightarrow> storage" where
  "both_stores list list_sv =
     Map.empty(WATCH_LATER_KEY \<mapsto> JsonText (JArr list), WATCH_LATER_KEY_sv \<mapsto> JsonText (JArr list_sv))"

section \<open>Lemmas on values and on the array methods\<close>

lemma strict_eq_eq: "strict_eq a b \<Longrightarrow> a = b"
  by (cases a; cases b) auto

lemma strict_eq_sym: "strict_eq a b = strict_eq b a"
  by (cases a; cases b) auto

lemma json_norm_not_undefined [simp]: "json_norm v \<noteq> JUndefined"
  by (cases v) (auto split: number.splits)

lemma json_norm_idem [simp]: "json_norm (json_norm v) = json_norm v"
proof (induction v rule: json_norm.induct)
  case (7 kvs)
  have ih: "json_norm (json_norm v) = json_norm v" if "(k, v) \<in> set kvs" "v \<noteq> JUndefined" for k v
    using "7" [of "(k, v)" k v] that by simp
  show ?case by (auto simp: ih)
qed (auto split: number.splits)

lemma getWatchLater_movie_eq: "getWatchLater_movie st = getWatchLater st"
  by (simp add: getWatchLater_movie_def getWatchLater_def split: option.splits stored.splits)

lemma toggleWatchLater_movie_eq: "toggleWatchLater_movie item st = toggleWatchLater item st"
  by (simp add: toggleWatchLater_movie_def toggleWatchLater_def getWatchLater_movie_eq)

section \<open>Loading the list\<close>

text \<open>
  Claim C2, as the code has it. In the Aurora store, loading returns the empty list, and
  raises nothing, when the key is missing or holds the empty string or a text that is not
  valid JSON; a text that is valid JSON is returned as decoded, whatever its shape. The
  StreamVerse store returns the empty list when the key is missing or holds the empty
  string, and the decoded value when the text is valid JSON.
\<close>

theorem load_fail_open:
  "(st WATCH_LATER_KEY = None \<or> st WATCH_LATER_KEY = Some EmptyText \<or> st WATCH_LATER_KEY = Some BadText
      \<longrightarrow> getWatchLater st = JArr [] \<and> getWatchLater_movie st = JArr [])
   \<and> (st WATCH_LATER_KEY = Some (JsonText v)
      \<longrightarrow> getWatchLater st = json_norm v \<and> getWatchLater_movie st = json_norm v)
   \<and> (st WATCH_LATER_KEY_sv = None \<or> st WATCH_LATER_KEY_sv = Some EmptyText
      \<longrightarrow> getWatchLaterList st = Inr (JArr []))
   \<and> (st WATCH_LATER_KEY_sv = Some (JsonText w) \<longrightarrow> getWatchLaterList st = Inr (json_norm w))"
  by (auto simp: getWatchLater_def getWatchLater_movie_def getWatchLaterList_def)

theorem load_fail_open_witness:
  "getWatchLater (Map.empty(WATCH_LATER_KEY \<mapsto> BadText)) = JArr []
   \<and> getWatchLater_movie (Map.empty(WATCH_LATER_KEY \<mapsto> BadText)) = JArr []
   \<and> getWatchLaterList (Map.empty(WATCH_LATER_KEY \<mapsto> BadText)) = Inr (JArr [])
   \<and> getWatchLater (Map.empty(WATCH_LATER_KEY \<mapsto> JsonText (JArr [JNum NaN]),
                              WATCH_LATER_KEY_sv \<mapsto> JsonText (JStr ''x''))) = JArr [JNull]
   \<and> getWatchLaterList (Map.empty(WATCH_LATER_KEY \<mapsto> JsonText (JArr [JNum NaN]),
                              WATCH_LATER_KEY_sv \<mapsto> JsonText (JStr ''x''))) = Inr (JStr ''x'')"
  using load_fail_open [of "Map.empty(WATCH_LATER_KEY \<mapsto> BadText)"]
    load_fail_open [of "Map.empty(WATCH_LATER_KEY \<mapsto> JsonText (JArr [JNum NaN]),
                                  WATCH_LATER_KEY_sv \<mapsto> JsonText (JStr ''x''))"
                       "JArr [JNum NaN]" "JStr ''x''"]
  by (simp add: WATCH_LATER_KEY_def WATCH_LATER_KEY_sv_def)

text \<open>
  Claim C2 as stated fails: a stored object, which is valid JSON but not a list of records,
  is what the Aurora store returns, and a text that is not valid JSON makes the StreamVerse
  store raise.
\<close>

theorem load_fail_open_counterexample:
  "getWatchLater (Map.empty(WATCH_LATER_KEY \<mapsto> JsonText (JObj [(''id'', JNum (Fin 1))])))
     = JObj [(''id'', JNum (Fin 1))]
   \<and> getWatchLater (Map.empty(WATCH_LATER_KEY \<mapsto> JsonText (JObj [(''id'', JNum (Fin 1))])))
     \<noteq> JArr []
   \<and> getWatchLaterList (Map.empty(WATCH_LATER_KEY_sv \<mapsto> BadText)) = Inl SyntaxError"
  by (simp add: getWatchLater_def getWatchLaterList_def)

section \<open>Rendering a rating\<close>

text \<open>
  Claim C7. A rating of 0 and a missing rating (\<^verbatim>\<open>undefined\<close>, or \<^verbatim>\<open>null\<close>) render as
  the same placeholder: \<^verbatim>\<open>N/A\<close> by \<^verbatim>\<open>formatRating\<close> of js/main.js, the en dash on a
  card of the Aurora pages, for every item and whatever \<^verbatim>\<open>toFixed\<close> would print.
\<close>

theorem rating_zero_as_absent:
  "formatRating toFixed1 (JNum (Fin 0)) = Inr ''N/A''
   \<and> formatRating toFixed1 JUndefined = Inr ''N/A''
   \<and> formatRating toFixed1 JNull = Inr ''N/A''
   \<and> (is_record item \<and>
        (own_prop item ''vote_average'' = JNum (Fin 0) \<or>
         own_prop item ''vote_average'' = JUndefined \<or>
         own_prop item ''vote_average'' = JNull)
       \<longrightarrow> card_rating toFixed1 item = Inr EN_DASH)"
  by (cases item) (auto simp: formatRating_def card_rating_def get_prop_def)

theorem rating_zero_as_absent_witness:
  "card_rating (\<lambda>n. ''8.1'') (JObj [(''id'', JNum (Fin 603)), (''vote_average'', JNum (Fin 0))])
     = Inr EN_DASH
   \<and> card_rating (\<lambda>n. ''8.1'') (JObj [(''id'', JNum (Fin 603))]) = Inr EN_DASH
   \<and> card_rating (\<lambda>n. ''8.1'') (JObj [(''id'', JNum (Fin 603)), (''vote_average'', JNum (Fin (81 / 10)))])
     = Inr ''8.1''"
  using rating_zero_as_absent [of "\<lambda>n. ''8.1''" "JObj [(''id'', JNum (Fin 603)), (''vote_average'', JNum (Fin 0))]"]
    rating_zero_as_absent [of "\<lambda>n. ''8.1''" "JObj [(''id'', JNum (Fin 603))]"]
  by (simp add: card_rating_def get_prop_def)

lemma same_item_eq:
  "same_item x i = (if nullish i \<or> nullish x then Inl TypeError else Inr (same_key x i))"
  by (auto simp: same_item_def get_prop_def same_key_def has_key_def)

lemma key_match_eq:
  "key_match a k i = (if nullish i then Inl TypeError else Inr (has_key a k i))"
  by (auto simp: key_match_def get_prop_def has_key_def)

lemma id_match_eq:
  "id_match a i = (if nullish i then Inl TypeError else Inr (has_id a i))"
  by (auto simp: id_match_def get_prop_def has_id_def)

lemma findIndex_None_iff: "findIndex p xs = Inr None \<longleftrightarrow> (\<forall>x\<in>set xs. p x = Inr False)"
  by (induction xs) (auto split: sum.splits bool.splits option.splits)

lemma findIndex_Some:
  "findIndex p xs = Inr (Some n) \<Longrightarrow>
     \<exists>ys m zs. xs = ys @ m # zs \<and> length ys = n \<and> p m = Inr True \<and> (\<forall>y\<in>set ys. p y = Inr False)"
proof (induction xs arbitrary: n)
  case Nil
  then show ?case by simp
next
  case (Cons x xs)
  show ?case
  proof (cases "p x = Inr True")
    case True
    with Cons.prems have "n = 0" by simp
    with True show ?thesis by (intro exI [of _ "[]"] exI [of _ x] exI [of _ xs]) simp
  next
    case False
    with Cons.prems obtain k where k: "findIndex p xs = Inr (Some k)" "n = Suc k" "p x = Inr False"
      by (auto split: sum.splits bool.splits option.splits)
    from Cons.IH [OF k(1)] obtain ys m zs where
      "xs = ys @ m # zs" "length ys = k" "p m = Inr True" "\<forall>y\<in>set ys. p y = Inr False"
      by blast
    with k show ?thesis
      by (intro exI [of _ "x # ys"] exI [of _ m] exI [of _ zs]) simp
  qed
qed

lemma findIndex_split:
  "(\<forall>y\<in>set ys. p y = Inr False) \<Longrightarrow> p m = Inr True \<Longrightarrow>
     findIndex p (ys @ m # zs) = Inr (Some (length ys))"
  by (induction ys) auto

lemma splice1_split: "splice1 (length ys) (ys @ m # zs) = ys @ zs"
  by (simp add: splice1_def)

lemma remove_first_split:
  "(\<forall>y\<in>set ys. \<not> P y) \<Longrightarrow> P m \<Longrightarrow> remove_first P (ys @ m # zs) = ys @ zs"
  by (induction ys) auto

lemma remove_first_none: "(\<forall>y\<in>set ys. \<not> P y) \<Longrightarrow> remove_first P ys = ys"
  by (induction ys) auto

lemma some_js_False_iff: "some_js p xs = Inr False \<longleftrightarrow> (\<forall>x\<in>set xs. p x = Inr False)"
  by (induction xs) (auto split: sum.splits bool.splits)

lemma some_js_skip: "q m = Inr False \<Longrightarrow> some_js q (ys @ m # zs) = some_js q (ys @ zs)"
  by (induction ys) (auto split: sum.splits bool.splits)

lemma some_js_snoc: "q m = Inr False \<Longrightarrow> some_js q (ys @ [m]) = some_js q ys"
  using some_js_skip [of q m ys "[]"] by simp

lemma some_js_hit:
  "(\<forall>y\<in>set ys. p y = Inr False) \<Longrightarrow> p m = Inr True \<Longrightarrow> some_js p (ys @ m # zs) = Inr True"
  by (induction ys) auto

lemma getWatchLater_setItem:
  "getWatchLater (setItem WATCH_LATER_KEY (JSON_stringify l) st) = JArr (map json_norm l)"
  by (simp add: getWatchLater_def setItem_def JSON_stringify_def)

lemma getWatchLater_norm: "json_norm (getWatchLater st) = getWatchLater st"
  by (simp add: getWatchLater_def split: option.splits stored.splits)

lemma getWatchLater_list_norm: "getWatchLater st = JArr xs \<Longrightarrow> map json_norm xs = xs"
  using getWatchLater_norm [of st] by simp

lemma getWatchLaterList_setItem:
  "getWatchLaterList (setItem WATCH_LATER_KEY_sv (JSON_stringify l) st) = Inr (JArr (map json_norm l))"
  by (simp add: getWatchLaterList_def setItem_def JSON_stringify_def)

lemma getWatchLaterList_list_norm: "getWatchLaterList st = Inr (JArr xs) \<Longrightarrow> map json_norm xs = xs"
proof -
  assume a: "getWatchLaterList st = Inr (JArr xs)"
  have "getWatchLaterList st = Inr v \<Longrightarrow> json_norm v = v" for v
    by (auto simp: getWatchLaterList_def split: option.splits stored.splits)
  from this [OF a] show ?thesis by simp
qed

lemma map_of_json_norm:
  "map_of kvs k = Some v \<Longrightarrow> v \<noteq> JUndefined \<Longrightarrow>
     map_of (map (\<lambda>(k, v). (k, json_norm v)) (filter (\<lambda>(k, v). v \<noteq> JUndefined) kvs)) k
       = Some (json_norm v)"
  by (induction kvs) (auto split: if_splits)

lemma own_prop_json_norm:
  "own_prop x k = v \<Longrightarrow> v \<noteq> JUndefined \<Longrightarrow> own_prop (json_norm x) k = json_norm v"
  by (cases x) (auto simp: map_of_json_norm split: option.splits number.splits)

lemma is_item_record: "is_item x \<Longrightarrow> is_record x"
  by (cases x) (auto simp: is_item_def)

lemma is_record_not_nullish: "is_record x \<Longrightarrow> \<not> nullish x"
  by (cases x) auto

lemma is_record_json_norm: "is_record x \<Longrightarrow> is_record (json_norm x)"
  by (cases x) auto

lemma is_item_key_norm:
  assumes "is_item x"
  shows "own_prop (json_norm x) ''id'' = own_prop x ''id''"
    and "own_prop (json_norm x) ''media_type'' = own_prop x ''media_type''"
proof -
  from assms obtain n s where "own_prop x ''id'' = JNum (Fin n)" "own_prop x ''media_type'' = JStr s"
    by (auto simp: is_item_def split: jsval.splits number.splits)
  then show "own_prop (json_norm x) ''id'' = own_prop x ''id''"
    and "own_prop (json_norm x) ''media_type'' = own_prop x ''media_type''"
    using own_prop_json_norm [of x "''id''"] own_prop_json_norm [of x "''media_type''"] by auto
qed

lemma is_item_same_key_self: "is_item x \<Longrightarrow> same_key x (json_norm x)"
  by (auto simp: same_key_def has_key_def is_item_key_norm is_item_def split: jsval.splits number.splits)

lemma toggleWatchLater_cases:
  assumes "toggleWatchLater x st = Inr (b, st')"
  obtains (added) xs where "getWatchLater st = JArr xs" "b"
      "\<forall>i\<in>set xs. same_item x i = Inr False"
      "st' = setItem WATCH_LATER_KEY (JSON_stringify (xs @ [x])) st"
      "getWatchLater st' = JArr (xs @ [json_norm x])"
    | (removed) ys m zs where "getWatchLater st = JArr (ys @ m # zs)" "\<not> b"
      "same_item x m = Inr True" "\<forall>y\<in>set ys. same_item x y = Inr False"
      "st' = setItem WATCH_LATER_KEY (JSON_stringify (ys @ zs)) st"
      "getWatchLater st' = JArr (ys @ zs)"
proof -
  from assms obtain xs idx where xs: "getWatchLater st = JArr xs"
    and idx: "findIndex (same_item x) xs = Inr idx"
    and b: "b = (idx = None)"
    and st': "st' = setItem WATCH_LATER_KEY
                      (JSON_stringify (case idx of Some i \<Rightarrow> splice1 i xs | None \<Rightarrow> push x xs)) st"
    by (cases "getWatchLater st") (auto simp: toggleWatchLater_def Let_def split: sum.splits)
  have n: "map json_norm xs = xs" using xs by (rule getWatchLater_list_norm)
  show thesis
  proof (cases idx)
    case None
    with idx have "\<forall>i\<in>set xs. same_item x i = Inr False" by (simp add: findIndex_None_iff)
    moreover have "st' = setItem WATCH_LATER_KEY (JSON_stringify (xs @ [x])) st"
      using st' None by (simp add: push_def)
    moreover from this have "getWatchLater st' = JArr (xs @ [json_norm x])"
      by (simp add: getWatchLater_setItem n)
    ultimately show thesis using added xs b None by blast
  next
    case (Some i)
    from findIndex_Some [OF idx [unfolded Some]] obtain ys m zs where
      d: "xs = ys @ m # zs" "length ys = i" "same_item x m = Inr True"
         "\<forall>y\<in>set ys. same_item x y = Inr False"
      by blast
    have s: "splice1 i xs = ys @ zs" using d(1,2) splice1_split [of ys m zs] by simp
    have "st' = setItem WATCH_LATER_KEY (JSON_stringify (ys @ zs)) st"
      using st' Some s by simp
    moreover have "getWatchLater st' = JArr (ys @ zs)"
      using calculation n d(1) by (simp add: getWatchLater_setItem)
    ultimately show thesis using removed xs d b Some by blast
  qed
qed

lemma toggleWatchLater_sv_cases:
  assumes "toggleWatchLater_sv idv x st = Inr (r, st')"
  obtains (added) xs where "getWatchLaterList st = Inr (JArr xs)" "r = JUndefined"
      "\<forall>i\<in>set xs. id_match idv i = Inr False"
      "st' = setItem WATCH_LATER_KEY_sv (JSON_stringify (xs @ [x])) st"
      "getWatchLaterList st' = Inr (JArr (xs @ [json_norm x]))"
    | (removed) ys m zs where "getWatchLaterList st = Inr (JArr (ys @ m # zs))" "r = JUndefined"
      "id_match idv m = Inr True" "\<forall>y\<in>set ys. id_match idv y = Inr False"
      "st' = setItem WATCH_LATER_KEY_sv (JSON_stringify (ys @ zs)) st"
      "getWatchLaterList st' = Inr (JArr (ys @ zs))"
proof -
  from assms obtain v where v: "getWatchLaterList st = Inr v"
    by (auto simp: toggleWatchLater_sv_def split: sum.splits)
  with assms obtain xs where xs: "v = JArr xs"
    by (cases v) (auto simp: toggleWatchLater_sv_def split: sum.splits)
  from assms v xs obtain idx where idx: "findIndex (id_match idv) xs = Inr idx"
    and r: "r = JUndefined"
    and st': "st' = setItem WATCH_LATER_KEY_sv
                      (JSON_stringify (case idx of Some i \<Rightarrow> splice1 i xs | None \<Rightarrow> push x xs)) st"
    by (auto simp: toggleWatchLater_sv_def saveWatchLaterList_def Let_def split: sum.splits)
  have n: "map json_norm xs = xs" using v xs getWatchLaterList_list_norm by simp
  show thesis
  proof (cases idx)
    case None
    with idx have "\<forall>i\<in>set xs. id_match idv i = Inr False" by (simp add: findIndex_None_iff)
    moreover have "st' = setItem WATCH_LATER_KEY_sv (JSON_stringify (xs @ [x])) st"
      using st' None by (simp add: push_def)
    moreover from this have "getWatchLaterList st' = Inr (JArr (xs @ [json_norm x]))"
      by (simp add: getWatchLaterList_setItem n)
    ultimately show thesis using added v xs r by blast
  next
    case (Some i)
    from findIndex_Some [OF idx [unfolded Some]] obtain ys m zs where
      d: "xs = ys @ m # zs" "length ys = i" "id_match idv m = Inr True"
         "\<forall>y\<in>set ys. id_match idv y = Inr False"
      by blast
    have s: "splice1 i xs = ys @ zs" using d(1,2) splice1_split [of ys m zs] by simp
    have "st' = setItem WATCH_LATER_KEY_sv (JSON_stringify (ys @ zs)) st"
      using st' Some s by simp
    moreover have "getWatchLaterList st' = Inr (JArr (ys @ zs))"
      using calculation n d(1) by (simp add: getWatchLaterList_setItem)
    ultimately show thesis using removed v xs d r by blast
  qed
qed

section \<open>Toggling\<close>

lemma saved_precheck_eq:
  "getWatchLater st = JArr xs \<Longrightarrow> saved_precheck a k st = some_js (key_match a k) xs"
  by (simp add: saved_precheck_def getWatchLater_movie_eq)

lemma card_saved_eq:
  "getWatchLater st = JArr xs \<Longrightarrow> card_saved x st = some_js (same_item x) xs"
  by (simp add: card_saved_def)

lemma checkWatchLaterStatus_eq:
  "getWatchLaterList st = Inr (JArr xs) \<Longrightarrow> checkWatchLaterStatus a st = some_js (id_match a) xs"
  by (simp add: checkWatchLaterStatus_def)

lemma same_item_True_key:
  assumes "same_item x m = Inr True"
  shows "\<not> nullish m" "own_prop m ''id'' = own_prop x ''id''"
    "own_prop m ''media_type'' = own_prop x ''media_type''"
  using assms
  by (auto simp: same_item_eq same_key_def has_key_def dest: strict_eq_eq split: if_splits)

lemma key_match_other:
  assumes "\<not> nullish m" "(a, k) \<noteq> (own_prop m ''id'', own_prop m ''media_type'')"
  shows "key_match a k m = Inr False"
  using assms by (auto simp: key_match_eq has_key_def dest: strict_eq_eq)

lemma id_match_other:
  assumes "\<not> nullish m" "a \<noteq> own_prop m ''id''"
  shows "id_match a m = Inr False"
  using assms by (auto simp: id_match_eq has_id_def dest: strict_eq_eq)

text \<open>
  Claim C1, as the code has it. In the Aurora store the toggle matches on the pair of
  \<^verbatim>\<open>id\<close> and \<^verbatim>\<open>media_type\<close>: toggling an item leaves the presence of every other
  pair as it was (so toggling the movie 5 does not touch the series 5). In the StreamVerse
  store the toggle matches on \<^verbatim>\<open>id\<close> alone: toggling an identifier leaves the presence
  of every other identifier as it was.
\<close>

theorem toggle_key_frame:
  "(is_item x \<and> toggleWatchLater x st = Inr (b, st') \<and>
      (a, k) \<noteq> (own_prop x ''id'', own_prop x ''media_type'')
      \<longrightarrow> saved_precheck a k st' = saved_precheck a k st)
   \<and> (toggleWatchLater_sv (JNum (Fin n)) itemData sv = Inr (r, sv') \<and>
      own_prop itemData ''id'' = JNum (Fin n) \<and> c \<noteq> JNum (Fin n)
      \<longrightarrow> checkWatchLaterStatus c sv' = checkWatchLaterStatus c sv)"
proof (intro conjI impI; elim conjE)
  assume x: "is_item x" and t: "toggleWatchLater x st = Inr (b, st')"
    and ne: "(a, k) \<noteq> (own_prop x ''id'', own_prop x ''media_type'')"
  from t show "saved_precheck a k st' = saved_precheck a k st"
  proof (cases rule: toggleWatchLater_cases)
    case (added xs)
    have "\<not> nullish (json_norm x)"
      using x by (simp add: is_item_record is_record_json_norm is_record_not_nullish)
    then have "key_match a k (json_norm x) = Inr False"
      using ne by (intro key_match_other) (simp_all add: is_item_key_norm [OF x])
    then show ?thesis
      using added by (simp add: saved_precheck_eq some_js_snoc)
  next
    case (removed ys m zs)
    have "key_match a k m = Inr False"
      using same_item_True_key [OF removed(3)] ne by (intro key_match_other) simp_all
    then show ?thesis
      using removed by (simp add: saved_precheck_eq some_js_skip)
  qed
next
  assume t: "toggleWatchLater_sv (JNum (Fin n)) itemData sv = Inr (r, sv')"
    and i: "own_prop itemData ''id'' = JNum (Fin n)" and ne: "c \<noteq> JNum (Fin n)"
  from t show "checkWatchLaterStatus c sv' = checkWatchLaterStatus c sv"
  proof (cases rule: toggleWatchLater_sv_cases)
    case (added xs)
    have r: "is_record itemData" using i by (cases itemData) auto
    have "own_prop (json_norm itemData) ''id'' = JNum (Fin n)"
      using own_prop_json_norm [OF i] by simp
    then have "id_match c (json_norm itemData) = Inr False"
      using ne r by (intro id_match_other) (simp_all add: is_record_json_norm is_record_not_nullish)
    then show ?thesis
      using added by (simp add: checkWatchLaterStatus_eq some_js_snoc)
  next
    case (removed ys m zs)
    from removed(3) have "\<not> nullish m" "own_prop m ''id'' = JNum (Fin n)"
      by (auto simp: id_match_eq has_id_def dest: strict_eq_eq split: if_splits)
    then have "id_match c m = Inr False"
      using ne by (intro id_match_other) simp_all
    then show ?thesis
      using removed by (simp add: checkWatchLaterStatus_eq some_js_skip)
  qed
qed

theorem toggle_key_frame_witness:
  "is_item movie5
   \<and> toggleWatchLater movie5 (aurora_store [series5])
       = Inr (True, setItem WATCH_LATER_KEY (JSON_stringify [series5, movie5]) (aurora_store [series5]))
   \<and> saved_precheck (JNum (Fin 5)) (JStr ''tv'') (aurora_store [series5]) = Inr True
   \<and> saved_precheck (JNum (Fin 5)) (JStr ''tv'')
        (setItem WATCH_LATER_KEY (JSON_stringify [series5, movie5]) (aurora_store [series5])) = Inr True
   \<and> toggleWatchLater_sv (JNum (Fin 5)) sv_movie5 (sv_store [sv_inception])
       = Inr (JUndefined, setItem WATCH_LATER_KEY_sv (JSON_stringify [sv_inception, sv_movie5])
                            (sv_store [sv_inception]))
   \<and> checkWatchLaterStatus (JNum (Fin 27205)) (sv_store [sv_inception]) = Inr True
   \<and> checkWatchLaterStatus (JNum (Fin 27205))
        (setItem WATCH_LATER_KEY_sv (JSON_stringify [sv_inception, sv_movie5]) (sv_store [sv_inception]))
       = Inr True"
  using toggle_key_frame [of movie5 "aurora_store [series5]" True
      "setItem WATCH_LATER_KEY (JSON_stringify [series5, movie5]) (aurora_store [series5])"
      "JNum (Fin 5)" "JStr ''tv''" 5 sv_movie5 "sv_store [sv_inception]" JUndefined
      "setItem WATCH_LATER_KEY_sv (JSON_stringify [sv_inception, sv_movie5]) (sv_store [sv_inception])"
      "JNum (Fin 27205)"]
  by (simp add: is_item_def movie5_def series5_def sv_movie5_def sv_inception_def aurora_store_def
      sv_store_def toggleWatchLater_def toggleWatchLater_sv_def getWatchLater_def getWatchLaterList_def
      getWatchLater_movie_def saved_precheck_def checkWatchLaterStatus_def same_item_def id_match_def
      key_match_def get_prop_def push_def splice1_def setItem_def JSON_stringify_def
      saveWatchLaterList_def WATCH_LATER_KEY_def WATCH_LATER_KEY_sv_def)

text \<open>
  Claim C1 as stated fails in the StreamVerse store: with the series 5 stored, toggling the
  movie 5 removes the series.
\<close>

theorem toggle_key_frame_counterexample:
  "getWatchLaterList (sv_store [sv_series5]) = Inr (JArr [sv_series5])
   \<and> toggleWatchLater_sv (JNum (Fin 5)) sv_movie5 (sv_store [sv_series5])
       = Inr (JUndefined, saveWatchLaterList [] (sv_store [sv_series5]))
   \<and> getWatchLaterList (saveWatchLaterList [] (sv_store [sv_series5])) = Inr (JArr [])"
  by (simp add: sv_movie5_def sv_series5_def sv_store_def toggleWatchLater_sv_def getWatchLaterList_def
      id_match_def get_prop_def splice1_def setItem_def JSON_stringify_def saveWatchLaterList_def)

section \<open>The flag of a toggle\<close>

lemma same_item_Inr:
  assumes "same_item x i = Inr c"
  shows "key_match (own_prop x ''id'') (own_prop x ''media_type'') i = Inr c" "same_key x i = c"
  using assms by (auto simp: same_item_eq key_match_eq same_key_def split: if_splits)

lemma toggleWatchLater_total:
  assumes "is_record x" "getWatchLater st = JArr xs" "list_all is_record xs"
  shows "\<exists>b st'. toggleWatchLater x st = Inr (b, st')"
proof -
  have "\<exists>idx. findIndex (same_item x) ys = Inr idx" if "list_all is_record ys" for ys
    using that assms(1)
    by (induction ys) (auto simp: same_item_eq is_record_not_nullish split: option.splits bool.splits)
  from this [OF assms(3)] show ?thesis
    using assms(2) by (auto simp: toggleWatchLater_def Let_def)
qed

text \<open>
  Claim C3, as the code has it. The Aurora toggle returns \<^verbatim>\<open>true\<close> exactly when no stored
  record had the item's \<^verbatim>\<open>id\<close> and media kind, and then the item is appended; it returns
  \<^verbatim>\<open>false\<close> exactly when one had, and then the first such record is removed; on a list
  of records it always returns. From the empty store, toggling Inception (27205, movie)
  returns \<^verbatim>\<open>true\<close> and the movie is then contained; toggling it again returns
  \<^verbatim>\<open>false\<close> and it is no longer contained. The StreamVerse toggle returns no flag: its
  value is \<^verbatim>\<open>undefined\<close>.
\<close>

theorem toggle_flag:
  "(toggleWatchLater_movie x st = Inr (b, st') \<and> getWatchLater st = JArr xs \<longrightarrow>
      (b \<longleftrightarrow> saved_precheck (own_prop x ''id'') (own_prop x ''media_type'') st = Inr False) \<and>
      (\<not> b \<longleftrightarrow> saved_precheck (own_prop x ''id'') (own_prop x ''media_type'') st = Inr True) \<and>
      getWatchLater st' = JArr (if b then xs @ [json_norm x] else remove_first (same_key x) xs))
   \<and> (is_record x \<and> getWatchLater st = JArr xs \<and> list_all is_record xs \<longrightarrow>
      (\<exists>c st2. toggleWatchLater_movie x st = Inr (c, st2)))
   \<and> toggleWatchLater_movie inception Map.empty = Inr (True, aurora_store [inception])
   \<and> saved_precheck (JNum (Fin 27205)) (JStr ''movie'') (aurora_store [inception]) = Inr True
   \<and> toggleWatchLater_movie inception (aurora_store [inception]) = Inr (False, aurora_store [])
   \<and> saved_precheck (JNum (Fin 27205)) (JStr ''movie'') (aurora_store []) = Inr False
   \<and> (toggleWatchLater_sv idv itemData sv = Inr (r, sv') \<longrightarrow> r = JUndefined)"
proof (intro conjI impI)
  assume a: "toggleWatchLater_movie x st = Inr (b, st') \<and> getWatchLater st = JArr xs"
  then have t: "toggleWatchLater x st = Inr (b, st')" and xs: "getWatchLater st = JArr xs"
    by (simp_all add: toggleWatchLater_movie_eq)
  let ?p = "saved_precheck (own_prop x ''id'') (own_prop x ''media_type'') st"
  from t have "(b \<longleftrightarrow> ?p = Inr False) \<and> (\<not> b \<longleftrightarrow> ?p = Inr True) \<and>
      getWatchLater st' = JArr (if b then xs @ [json_norm x] else remove_first (same_key x) xs)"
  proof (cases rule: toggleWatchLater_cases)
    case (added ws)
    then have "ws = xs" using xs by simp
    moreover have "some_js (key_match (own_prop x ''id'') (own_prop x ''media_type'')) ws = Inr False"
      using added(3) by (simp add: some_js_False_iff same_item_Inr(1))
    ultimately show ?thesis using added xs by (simp add: saved_precheck_eq)
  next
    case (removed ys m zs)
    then have eq: "xs = ys @ m # zs" using xs by simp
    have "some_js (key_match (own_prop x ''id'') (own_prop x ''media_type'')) (ys @ m # zs) = Inr True"
      using removed(3,4) by (intro some_js_hit) (simp_all add: same_item_Inr(1))
    moreover have "remove_first (same_key x) (ys @ m # zs) = ys @ zs"
      using removed(3,4) by (intro remove_first_split) (auto dest: same_item_Inr(2))
    ultimately show ?thesis using removed eq xs by (simp add: saved_precheck_eq)
  qed
  then show "b \<longleftrightarrow> ?p = Inr False" "\<not> b \<longleftrightarrow> ?p = Inr True"
    "getWatchLater st' = JArr (if b then xs @ [json_norm x] else remove_first (same_key x) xs)"
    by blast+
next
  assume "is_record x \<and> getWatchLater st = JArr xs \<and> list_all is_record xs"
  then show "\<exists>c st2. toggleWatchLater_movie x st = Inr (c, st2)"
    using toggleWatchLater_total [of x st xs] by (simp add: toggleWatchLater_movie_eq)
next
  show "toggleWatchLater_movie inception Map.empty = Inr (True, aurora_store [inception])"
    by (simp add: toggleWatchLater_movie_def getWatchLater_movie_def aurora_store_def push_def
        setItem_def JSON_stringify_def)
next
  show "saved_precheck (JNum (Fin 27205)) (JStr ''movie'') (aurora_store [inception]) = Inr True"
    by (simp add: saved_precheck_def getWatchLater_movie_def aurora_store_def inception_def
        key_match_def get_prop_def)
next
  show "toggleWatchLater_movie inception (aurora_store [inception]) = Inr (False, aurora_store [])"
    by (simp add: toggleWatchLater_movie_def getWatchLater_movie_def aurora_store_def inception_def
        same_item_def get_prop_def splice1_def setItem_def JSON_stringify_def)
next
  show "saved_precheck (JNum (Fin 27205)) (JStr ''movie'') (aurora_store []) = Inr False"
    by (simp add: saved_precheck_def getWatchLater_movie_def aurora_store_def)
next
  assume "toggleWatchLater_sv idv itemData sv = Inr (r, sv')"
  then show "r = JUndefined"
    by (auto simp: toggleWatchLater_sv_def Let_def split: sum.splits)
qed

theorem toggle_flag_witness:
  "getWatchLater (aurora_store [series5]) = JArr [series5]
   \<and> list_all is_record [series5] \<and> is_record movie5
   \<and> toggleWatchLater_movie movie5 (aurora_store [series5]) = Inr (True, aurora_store [series5, movie5])
   \<and> saved_precheck (JNum (Fin 5)) (JStr ''movie'') (aurora_store [series5]) = Inr False
   \<and> getWatchLater (aurora_store [series5, movie5]) = JArr [series5, movie5]
   \<and> toggleWatchLater_sv (JNum (Fin 5)) sv_movie5 (sv_store []) = Inr (JUndefined, sv_store [sv_movie5])"
  using toggle_flag [of movie5 "aurora_store [series5]" True "aurora_store [series5, movie5]"
      "[series5]" "JNum (Fin 5)" sv_movie5 "sv_store []" JUndefined "sv_store [sv_movie5]"]
  by (simp add: movie5_def series5_def sv_movie5_def aurora_store_def sv_store_def
      toggleWatchLater_movie_def toggleWatchLater_sv_def getWatchLater_def getWatchLaterList_def
      getWatchLater_movie_def saved_precheck_def same_item_def id_match_def
      key_match_def get_prop_def push_def splice1_def setItem_def JSON_stringify_def
      saveWatchLaterList_def WATCH_LATER_KEY_def WATCH_LATER_KEY_sv_def)

text \<open>
  Claim C3 as stated fails in the StreamVerse store: from the empty store the toggle of
  Inception appends the record and returns \<^verbatim>\<open>undefined\<close>, not \<^verbatim>\<open>true\<close>.
\<close>

theorem toggle_flag_counterexample:
  "toggleWatchLater_sv (JNum (Fin 27205)) sv_inception Map.empty
     = Inr (JUndefined, sv_store [sv_inception])
   \<and> JUndefined \<noteq> JBool True"
  by (simp add: toggleWatchLater_sv_def getWatchLaterList_def sv_store_def push_def
      saveWatchLaterList_def setItem_def JSON_stringify_def)

section \<open>Toggling twice\<close>

lemma toggleWatchLater_appends:
  assumes "getWatchLater st = JArr xs" "\<forall>i\<in>set xs. same_item x i = Inr False"
  shows "toggleWatchLater x st = Inr (True, setItem WATCH_LATER_KEY (JSON_stringify (xs @ [x])) st)"
  using assms findIndex_None_iff [of "same_item x" xs]
  by (simp add: toggleWatchLater_def push_def)

lemma toggleWatchLater_removes:
  assumes "getWatchLater st = JArr (ys @ m # zs)" "\<forall>y\<in>set ys. same_item x y = Inr False"
    "same_item x m = Inr True"
  shows "toggleWatchLater x st = Inr (False, setItem WATCH_LATER_KEY (JSON_stringify (ys @ zs)) st)"
  using assms findIndex_split [of ys "same_item x" m zs]
  by (simp add: toggleWatchLater_def splice1_split)

lemma same_item_self:
  assumes "is_item x"
  shows "same_item x (json_norm x) = Inr True"
  using assms is_item_same_key_self [OF assms]
  by (simp add: same_item_eq is_item_record is_record_json_norm is_record_not_nullish)

lemma toggleWatchLater_filter:
  assumes "toggleWatchLater x st = Inr (b, st')" "is_item x"
    "getWatchLater st = JArr xs" "getWatchLater st' = JArr xs'"
  shows "filter (\<lambda>i. \<not> same_key x i) xs' = filter (\<lambda>i. \<not> same_key x i) xs"
  using assms(1)
proof (cases rule: toggleWatchLater_cases)
  case (added ws)
  then have "xs = ws" "xs' = ws @ [json_norm x]" using assms(3,4) by simp_all
  then show ?thesis using assms(2) by (simp add: is_item_same_key_self)
next
  case (removed ys m zs)
  then have "xs = ys @ m # zs" "xs' = ys @ zs" "same_key x m"
    using assms(3,4) by (auto dest: same_item_Inr(2))
  then show ?thesis by simp
qed

lemma same_key_trans: "same_key x m \<Longrightarrow> same_key x z \<Longrightarrow> same_key m z"
  by (auto simp: same_key_def has_key_def dest: strict_eq_eq)

lemma pairwise_distinct_split:
  "pairwise_distinct R (ys @ m # zs) \<Longrightarrow> (\<forall>z\<in>set zs. \<not> R m z) \<and> pairwise_distinct R (ys @ zs)"
  by (induction ys) (auto simp: list_ex_iff)

lemma toggle_all_twice:
  "toggle_all [x, x] st = Inr st2 \<longleftrightarrow>
     (\<exists>b1 st1 b2. toggleWatchLater x st = Inr (b1, st1) \<and> toggleWatchLater x st1 = Inr (b2, st2))"
  by (auto split: sum.splits)

lemma toggle_twice_absent:
  assumes "toggle_all [x, x] st = Inr st2" "is_item x" "getWatchLater st = JArr xs"
    "\<not> list_ex (same_key x) xs"
  shows "getWatchLater st2 = JArr xs"
proof -
  from assms(1) [unfolded toggle_all_twice] obtain b1 st1 b2
    where t1: "toggleWatchLater x st = Inr (b1, st1)"
      and t2: "toggleWatchLater x st1 = Inr (b2, st2)"
    by blast
  from t1 show ?thesis
  proof (cases rule: toggleWatchLater_cases)
    case (added ws)
    then have ws: "ws = xs" using assms(3) by simp
    have "toggleWatchLater x st1
            = Inr (False, setItem WATCH_LATER_KEY (JSON_stringify (xs @ [])) st1)"
      using added(3,5) same_item_self [OF assms(2)] unfolding ws
      by (intro toggleWatchLater_removes) simp_all
    with t2 have "st2 = setItem WATCH_LATER_KEY (JSON_stringify xs) st1" by simp
    then show ?thesis
      using getWatchLater_list_norm [OF assms(3)] by (simp add: getWatchLater_setItem)
  next
    case (removed ys m zs)
    then have "same_key x m" "m \<in> set xs" using assms(3) by (auto dest: same_item_Inr(2))
    with assms(4) show ?thesis by (auto simp: list_ex_iff)
  qed
qed

lemma toggle_twice_present:
  assumes "toggle_all [x, x] st = Inr st2" "is_item x" "getWatchLater st = JArr xs"
    "unique_keys xs" "list_ex (same_key x) xs"
  shows "getWatchLater st2 = JArr (remove_first (same_key x) xs @ [json_norm x])"
proof -
  from assms(1) [unfolded toggle_all_twice] obtain b1 st1 b2
    where t1: "toggleWatchLater x st = Inr (b1, st1)"
      and t2: "toggleWatchLater x st1 = Inr (b2, st2)"
    by blast
  from t1 show ?thesis
  proof (cases rule: toggleWatchLater_cases)
    case (added ws)
    then have "\<forall>i\<in>set xs. \<not> same_key x i" using assms(3) by (auto dest: same_item_Inr(2))
    with assms(5) show ?thesis by (auto simp: list_ex_iff)
  next
    case (removed ys m zs)
    then have xs: "xs = ys @ m # zs" using assms(3) by simp
    have m: "same_key x m" and ys: "\<forall>y\<in>set ys. \<not> same_key x y"
      using removed(3,4) by (auto dest: same_item_Inr(2))
    have "\<forall>z\<in>set zs. \<not> same_key m z"
      using assms(4) pairwise_distinct_split [of same_key ys m zs] by (simp add: unique_keys_def xs)
    then have zs: "\<forall>z\<in>set zs. \<not> same_key x z" using m same_key_trans by blast
    have rf: "remove_first (same_key x) xs = ys @ zs"
      unfolding xs using ys m by (rule remove_first_split)
    note st1 = removed(6)
    from t2 have "getWatchLater st2 = JArr ((ys @ zs) @ [json_norm x])"
    proof (cases rule: toggleWatchLater_cases)
      case (added ws)
      then show ?thesis using st1 by simp
    next
      case (removed ys' m' zs')
      then have "same_key x m'" "m' \<in> set (ys @ zs)"
        using st1 by (auto dest: same_item_Inr(2))
      then show ?thesis using ys zs by auto
    qed
    then show ?thesis by (simp add: rf)
  qed
qed

lemma toggleWatchLater_records:
  assumes "is_item x" "getWatchLater st = JArr xs" "list_all is_record xs"
  shows "\<exists>b st' xs'. toggleWatchLater x st = Inr (b, st') \<and> getWatchLater st' = JArr xs' \<and>
           list_all is_record xs'"
proof -
  from toggleWatchLater_total [OF is_item_record [OF assms(1)] assms(2,3)]
  obtain b st' where t: "toggleWatchLater x st = Inr (b, st')" by blast
  then show ?thesis
  proof (cases rule: toggleWatchLater_cases)
    case (added ws)
    then have "list_all is_record (ws @ [json_norm x])"
      using assms by (simp add: is_item_record is_record_json_norm)
    with t added(5) show ?thesis by blast
  next
    case (removed ys m zs)
    then have "list_all is_record (ys @ zs)" using assms(2,3) by simp
    with t removed(6) show ?thesis by blast
  qed
qed

text \<open>
  Claim C4, as the code has it. Toggling the same item twice leaves every record with
  another key (\<^verbatim>\<open>id\<close>, media kind) as it was, in the same order. When no record had the
  item's key, the list is restored exactly. When the keys of the list are unique and a
  record had the item's key, that record is removed and the item passed to the toggle is
  appended at the end in its place: the same keys are stored, but the record of that key
  carries the fields of the item passed. On a list of records both toggles return.
\<close>

theorem toggle_twice:
  "(toggle_all [x, x] st = Inr st2 \<and> is_item x \<and> getWatchLater st = JArr xs \<and>
      getWatchLater st2 = JArr zs \<longrightarrow>
      filter (\<lambda>i. \<not> same_key x i) zs = filter (\<lambda>i. \<not> same_key x i) xs
      \<and> (\<not> list_ex (same_key x) xs \<longrightarrow> zs = xs)
      \<and> (unique_keys xs \<and> list_ex (same_key x) xs
           \<longrightarrow> zs = remove_first (same_key x) xs @ [json_norm x])
      \<and> (unique_keys xs \<longrightarrow> list_ex (same_key x) zs = list_ex (same_key x) xs))
   \<and> (is_item x \<and> getWatchLater st = JArr xs \<and> list_all is_record xs \<longrightarrow>
      (\<exists>st2 zs. toggle_all [x, x] st = Inr st2 \<and> getWatchLater st2 = JArr zs))"
proof (intro conjI impI)
  assume a: "toggle_all [x, x] st = Inr st2 \<and> is_item x \<and> getWatchLater st = JArr xs \<and>
      getWatchLater st2 = JArr zs"
  then have t: "toggle_all [x, x] st = Inr st2" and x: "is_item x"
    and xs: "getWatchLater st = JArr xs" and zs: "getWatchLater st2 = JArr zs"
    by simp_all
  from t [unfolded toggle_all_twice] obtain b1 st1 b2
    where t1: "toggleWatchLater x st = Inr (b1, st1)"
      and t2: "toggleWatchLater x st1 = Inr (b2, st2)"
    by blast
  from t2 obtain ws where ws: "getWatchLater st1 = JArr ws"
    by (cases rule: toggleWatchLater_cases) blast+
  show "filter (\<lambda>i. \<not> same_key x i) zs = filter (\<lambda>i. \<not> same_key x i) xs"
    using toggleWatchLater_filter [OF t1 x xs ws] toggleWatchLater_filter [OF t2 x ws zs] by simp
  show absent: "zs = xs" if "\<not> list_ex (same_key x) xs"
    using toggle_twice_absent [OF t x xs that] zs by simp
  show present: "zs = remove_first (same_key x) xs @ [json_norm x]"
    if "unique_keys xs \<and> list_ex (same_key x) xs"
    using toggle_twice_present [OF t x xs] that zs by simp
  show "list_ex (same_key x) zs = list_ex (same_key x) xs" if u: "unique_keys xs"
  proof (cases "list_ex (same_key x) xs")
    case True
    with present u have "zs = remove_first (same_key x) xs @ [json_norm x]" by simp
    then show ?thesis using True is_item_same_key_self [OF x] by (simp add: list_ex_iff)
  next
    case False
    then show ?thesis using absent by simp
  qed
next
  assume a: "is_item x \<and> getWatchLater st = JArr xs \<and> list_all is_record xs"
  with toggleWatchLater_records [of x st xs] obtain b1 st1 ws
    where t1: "toggleWatchLater x st = Inr (b1, st1)" and ws: "getWatchLater st1 = JArr ws"
      and r: "list_all is_record ws"
    by blast
  from a toggleWatchLater_records [OF _ ws r] obtain b2 st2 zs
    where "toggleWatchLater x st1 = Inr (b2, st2)" "getWatchLater st2 = JArr zs"
    by blast
  with t1 show "\<exists>st2 zs. toggle_all [x, x] st = Inr st2 \<and> getWatchLater st2 = JArr zs"
    unfolding toggle_all_twice by blast
qed

theorem toggle_twice_witness:
  "is_item movie5_retitled
   \<and> getWatchLater (aurora_store [movie5, series5]) = JArr [movie5, series5]
   \<and> list_all is_record [movie5, series5] \<and> unique_keys [movie5, series5]
   \<and> list_ex (same_key movie5_retitled) [movie5, series5]
   \<and> toggle_all [movie5_retitled, movie5_retitled] (aurora_store [movie5, series5])
       = Inr (aurora_store [series5, movie5_retitled])
   \<and> getWatchLater (aurora_store [series5, movie5_retitled]) = JArr [series5, movie5_retitled]
   \<and> toggle_all [series5, series5] (aurora_store [movie5]) = Inr (aurora_store [movie5])"
  using toggle_twice [of movie5_retitled "aurora_store [movie5, series5]"
      "aurora_store [series5, movie5_retitled]" "[movie5, series5]" "[series5, movie5_retitled]"]
    toggle_twice [of series5 "aurora_store [movie5]" "aurora_store [movie5]" "[movie5]" "[movie5]"]
  by (simp add: is_item_def movie5_def series5_def movie5_retitled_def aurora_store_def
      unique_keys_def same_key_def has_key_def
      toggleWatchLater_def getWatchLater_def same_item_def get_prop_def push_def splice1_def
      setItem_def JSON_stringify_def WATCH_LATER_KEY_def)

text \<open>
  Claim C4 as stated fails. With the movie 5 stored under one title, toggling twice the
  movie 5 under another title leaves the record passed, not the record there was. With two
  records of the same key stored, toggling that key twice removes both.
\<close>

theorem toggle_twice_counterexample:
  "toggle_all [movie5_retitled, movie5_retitled] (aurora_store [movie5])
     = Inr (aurora_store [movie5_retitled])
   \<and> getWatchLater (aurora_store [movie5]) = JArr [movie5]
   \<and> getWatchLater (aurora_store [movie5_retitled]) = JArr [movie5_retitled]
   \<and> movie5_retitled \<noteq> movie5
   \<and> toggle_all [movie5, movie5] (aurora_store [movie5, movie5]) = Inr (aurora_store [])
   \<and> getWatchLater (aurora_store []) = JArr []"
  by (simp add: movie5_def movie5_retitled_def aurora_store_def
      toggleWatchLater_def getWatchLater_def same_item_def get_prop_def push_def splice1_def
      setItem_def JSON_stringify_def)

section \<open>Uniqueness of the keys\<close>

lemma pairwise_distinct_snoc:
  "pairwise_distinct R (xs @ [a]) \<longleftrightarrow> pairwise_distinct R xs \<and> (\<forall>i\<in>set xs. \<not> R i a)"
  by (induction xs) (auto simp: list_ex_iff)

lemma same_key_sym: "same_key a b = same_key b a"
  by (auto simp: same_key_def has_key_def strict_eq_sym)

lemma same_key_norm_right: "is_item x \<Longrightarrow> same_key i (json_norm x) = same_key i x"
  by (simp add: same_key_def has_key_def is_item_key_norm)

lemma toggleWatchLater_unique:
  assumes "is_item x" "getWatchLater st = JArr xs" "list_all is_record xs" "unique_keys xs"
  shows "\<exists>b st' xs'. toggleWatchLater x st = Inr (b, st') \<and> getWatchLater st' = JArr xs' \<and>
           list_all is_record xs' \<and> unique_keys xs'"
proof -
  from toggleWatchLater_total [OF is_item_record [OF assms(1)] assms(2,3)]
  obtain b st' where t: "toggleWatchLater x st = Inr (b, st')" by blast
  then show ?thesis
  proof (cases rule: toggleWatchLater_cases)
    case (added ws)
    then have ws: "ws = xs" using assms(2) by simp
    have "\<forall>i\<in>set xs. \<not> same_key i (json_norm x)"
      using added(3) assms(1) unfolding ws
      by (auto simp: same_key_norm_right same_key_sym [of _ x] dest: same_item_Inr(2))
    then have "unique_keys (xs @ [json_norm x])"
      using assms(4) by (simp add: unique_keys_def pairwise_distinct_snoc)
    moreover have "list_all is_record (xs @ [json_norm x])"
      using assms by (simp add: is_item_record is_record_json_norm)
    ultimately show ?thesis using t added(5) ws by blast
  next
    case (removed ys m zs)
    then have xs: "xs = ys @ m # zs" using assms(2) by simp
    have "unique_keys (ys @ zs)"
      using assms(4) pairwise_distinct_split [of same_key ys m zs] by (simp add: unique_keys_def xs)
    moreover have "list_all is_record (ys @ zs)" using assms(3) xs by simp
    ultimately show ?thesis using t removed(6) by blast
  qed
qed

lemma toggle_all_unique:
  assumes "list_all is_item items" "getWatchLater st = JArr xs" "list_all is_record xs"
    "unique_keys xs"
  shows "\<exists>st' ys. toggle_all items st = Inr st' \<and> getWatchLater st' = JArr ys \<and>
           list_all is_record ys \<and> unique_keys ys"
  using assms
proof (induction items arbitrary: st xs)
  case Nil
  then show ?case by simp
next
  case (Cons x items)
  from Cons.prems have x: "is_item x" and items: "list_all is_item items" by simp_all
  from toggleWatchLater_unique [OF x Cons.prems(2,3,4)] obtain b st1 xs1
    where t: "toggleWatchLater x st = Inr (b, st1)" and l: "getWatchLater st1 = JArr xs1"
      and r: "list_all is_record xs1" and u: "unique_keys xs1"
    by blast
  from Cons.IH [OF items l r u] t show ?case by simp
qed

lemma findIndex_total:
  "(\<forall>i\<in>set ys. \<exists>c. p i = Inr c) \<Longrightarrow> \<exists>idx. findIndex p ys = Inr idx"
  by (induction ys) (auto split: option.splits bool.splits)

lemma toggle_click_sv_unique:
  assumes "is_item_sv x" "getWatchLaterList sv = Inr (JArr xs)" "list_all is_record xs"
    "unique_keys_sv xs"
  shows "\<exists>r sv' xs'. toggle_click_sv x sv = Inr (r, sv') \<and> getWatchLaterList sv' = Inr (JArr xs') \<and>
           list_all is_record xs' \<and> unique_keys_sv xs'"
proof -
  from assms(1) obtain n where n: "own_prop x ''id'' = JNum (Fin n)"
    by (auto simp: is_item_sv_def split: jsval.splits number.splits)
  then have rx: "is_record x" by (cases x) auto
  have c: "toggle_click_sv x sv = toggleWatchLater_sv (JNum (Fin n)) x sv"
    using n rx by (simp add: toggle_click_sv_def get_prop_def is_record_not_nullish)
  have "\<forall>i\<in>set xs. \<exists>c. id_match (JNum (Fin n)) i = Inr c"
    using assms(3) by (auto simp: id_match_eq list_all_iff is_record_not_nullish)
  from findIndex_total [OF this] obtain r sv'
    where t: "toggleWatchLater_sv (JNum (Fin n)) x sv = Inr (r, sv')"
    using assms(2) by (auto simp: toggleWatchLater_sv_def Let_def)
  then show ?thesis
  proof (cases rule: toggleWatchLater_sv_cases)
    case (added ws)
    then have ws: "ws = xs" using assms(2) by simp
    have nid: "own_prop (json_norm x) ''id'' = JNum (Fin n)"
      using own_prop_json_norm [OF n] by simp
    have "\<forall>i\<in>set xs. \<not> same_key_sv i (json_norm x)"
      using added(3) unfolding ws
      by (auto simp: same_key_sv_def nid id_match_eq has_id_def strict_eq_sym [of "JNum (Fin n)"]
          split: if_splits)
    then have "unique_keys_sv (xs @ [json_norm x])"
      using assms(4) by (simp add: unique_keys_sv_def pairwise_distinct_snoc)
    moreover have "list_all is_record (xs @ [json_norm x])"
      using assms(3) rx by (simp add: is_record_json_norm)
    ultimately show ?thesis using t c added(5) ws by auto
  next
    case (removed ys m zs)
    then have xs: "xs = ys @ m # zs" using assms(2) by simp
    have "unique_keys_sv (ys @ zs)"
      using assms(4) pairwise_distinct_split [of same_key_sv ys m zs]
      by (simp add: unique_keys_sv_def xs)
    moreover have "list_all is_record (ys @ zs)" using assms(3) xs by simp
    ultimately show ?thesis using t c removed(6) by auto
  qed
qed

lemma toggle_all_sv_unique:
  assumes "list_all is_item_sv items" "getWatchLaterList sv = Inr (JArr xs)"
    "list_all is_record xs" "unique_keys_sv xs"
  shows "\<exists>sv' ys. toggle_all_sv items sv = Inr sv' \<and> getWatchLaterList sv' = Inr (JArr ys) \<and>
           list_all is_record ys \<and> unique_keys_sv ys"
  using assms
proof (induction items arbitrary: sv xs)
  case Nil
  then show ?case by simp
next
  case (Cons x items)
  from Cons.prems have x: "is_item_sv x" and items: "list_all is_item_sv items" by simp_all
  from toggle_click_sv_unique [OF x Cons.prems(2,3,4)] obtain r sv1 xs1
    where t: "toggle_click_sv x sv = Inr (r, sv1)" and l: "getWatchLaterList sv1 = Inr (JArr xs1)"
      and rr: "list_all is_record xs1" and u: "unique_keys_sv xs1"
    by blast
  from Cons.IH [OF items l rr u] t show ?case by simp
qed

text \<open>
  Claim C5. Starting from a list of records in which no two share \<^verbatim>\<open>id\<close> and media kind
  (the empty list for one), every finite sequence of toggles of items returns and leaves a
  list in which no two records share both fields: in the Aurora store, where the key is
  \<^verbatim>\<open>id\<close> and \<^verbatim>\<open>media_type\<close>, and in the StreamVerse store, where a record carries
  \<^verbatim>\<open>id\<close> and \<^verbatim>\<open>type\<close> and the click handler toggles \<^verbatim>\<open>itemData.id\<close>.
\<close>

theorem toggle_keeps_keys_unique:
  "(list_all is_item items \<and> getWatchLater st = JArr xs \<and> list_all is_record xs \<and> unique_keys xs
      \<longrightarrow> (\<exists>st' ys. toggle_all items st = Inr st' \<and> getWatchLater st' = JArr ys \<and> unique_keys ys))
   \<and> (list_all is_item_sv clicks \<and> getWatchLaterList sv = Inr (JArr ws) \<and> list_all is_record ws \<and>
       unique_keys_sv ws
      \<longrightarrow> (\<exists>sv' ys. toggle_all_sv clicks sv = Inr sv' \<and> getWatchLaterList sv' = Inr (JArr ys) \<and>
             unique_keys_sv ys))"
  using toggle_all_unique [of items st xs] toggle_all_sv_unique [of clicks sv ws] by blast

theorem toggle_keeps_keys_unique_witness:
  "list_all is_item [inception, series5, inception]
   \<and> getWatchLater (aurora_store [movie5, series5]) = JArr [movie5, series5]
   \<and> list_all is_record [movie5, series5] \<and> unique_keys [movie5, series5]
   \<and> toggle_all [inception, series5, inception] (aurora_store [movie5, series5])
       = Inr (aurora_store [movie5])
   \<and> unique_keys [movie5]
   \<and> list_all is_item_sv [sv_movie5, sv_inception, sv_movie5]
   \<and> getWatchLaterList Map.empty = Inr (JArr []) \<and> unique_keys_sv []
   \<and> toggle_all_sv [sv_movie5, sv_inception, sv_movie5] Map.empty = Inr (sv_store [sv_inception])
   \<and> unique_keys_sv [sv_inception]"
  using toggle_keeps_keys_unique [of "[inception, series5, inception]" "aurora_store [movie5, series5]"
      "[movie5, series5]" "[sv_movie5, sv_inception, sv_movie5]" Map.empty "[]"]
  by (simp add: is_item_def is_item_sv_def movie5_def series5_def inception_def sv_movie5_def
      sv_inception_def aurora_store_def sv_store_def
      unique_keys_def unique_keys_sv_def same_key_def same_key_sv_def has_key_def
      toggleWatchLater_def toggle_click_sv_def toggleWatchLater_sv_def getWatchLater_def
      getWatchLaterList_def saveWatchLaterList_def same_item_def id_match_def get_prop_def
      push_def splice1_def setItem_def JSON_stringify_def WATCH_LATER_KEY_def WATCH_LATER_KEY_sv_def)

section \<open>Removing from the list page\<close>

text \<open>
  Claim C6. The remove button of the list page removes exactly the first record that has
  both the \<^verbatim>\<open>id\<close> and the media kind of the card's item, and leaves the store as it is
  when there is none; on a list of records it always returns. With the series 1396 and the
  movie 1396 stored, in either order, removing the series leaves exactly the movie.
\<close>

theorem removeAt_first_match:
  "(removeAt item st = Inr st' \<and> getWatchLater st = JArr xs
      \<longrightarrow> getWatchLater st' = JArr (remove_first (same_key item) xs))
   \<and> (is_record item \<and> getWatchLater st = JArr xs \<and> list_all is_record xs
      \<longrightarrow> (\<exists>st2. removeAt item st = Inr st2))
   \<and> removeAt series1396 (aurora_store [series1396, movie1396]) = Inr (aurora_store [movie1396])
   \<and> removeAt series1396 (aurora_store [movie1396, series1396]) = Inr (aurora_store [movie1396])
   \<and> getWatchLater (aurora_store [movie1396]) = JArr [movie1396]"
proof (intro conjI impI)
  assume a: "removeAt item st = Inr st' \<and> getWatchLater st = JArr xs"
  then have r: "removeAt item st = Inr st'" and xs: "getWatchLater st = JArr xs" by simp_all
  from r xs obtain idx where idx: "findIndex (same_item item) xs = Inr idx"
    by (auto simp: removeAt_def split: sum.splits)
  show "getWatchLater st' = JArr (remove_first (same_key item) xs)"
  proof (cases idx)
    case None
    with idx have "\<forall>i\<in>set xs. \<not> same_key item i"
      by (auto simp: findIndex_None_iff dest: same_item_Inr(2))
    then have "remove_first (same_key item) xs = xs" by (rule remove_first_none)
    moreover have "st' = st" using r xs idx None by (simp add: removeAt_def)
    ultimately show ?thesis using xs by simp
  next
    case (Some i)
    from findIndex_Some [OF idx [unfolded Some]] obtain ys m zs where
      d: "xs = ys @ m # zs" "length ys = i" "same_item item m = Inr True"
         "\<forall>y\<in>set ys. same_item item y = Inr False"
      by blast
    have "splice1 i xs = ys @ zs" using d(1,2) splice1_split [of ys m zs] by simp
    then have "st' = saveWatchLater (ys @ zs) st"
      using r xs idx Some by (simp add: removeAt_def)
    then have "getWatchLater st' = JArr (ys @ zs)"
      using getWatchLater_list_norm [OF xs] d(1)
      by (simp add: saveWatchLater_def getWatchLater_setItem)
    moreover have "remove_first (same_key item) xs = ys @ zs"
      unfolding d(1) using d(3,4) by (intro remove_first_split) (auto dest: same_item_Inr(2))
    ultimately show ?thesis by simp
  qed
next
  assume a: "is_record item \<and> getWatchLater st = JArr xs \<and> list_all is_record xs"
  then have "\<forall>i\<in>set xs. \<exists>c. same_item item i = Inr c"
    by (auto simp: same_item_eq list_all_iff is_record_not_nullish)
  from findIndex_total [OF this] a show "\<exists>st2. removeAt item st = Inr st2"
    by (auto simp: removeAt_def split: option.splits)
next
  show "removeAt series1396 (aurora_store [series1396, movie1396]) = Inr (aurora_store [movie1396])"
    by (simp add: removeAt_def getWatchLater_def aurora_store_def series1396_def movie1396_def
        same_item_def get_prop_def splice1_def saveWatchLater_def setItem_def JSON_stringify_def)
next
  show "removeAt series1396 (aurora_store [movie1396, series1396]) = Inr (aurora_store [movie1396])"
    by (simp add: removeAt_def getWatchLater_def aurora_store_def series1396_def movie1396_def
        same_item_def get_prop_def splice1_def saveWatchLater_def setItem_def JSON_stringify_def)
next
  show "getWatchLater (aurora_store [movie1396]) = JArr [movie1396]"
    by (simp add: getWatchLater_def aurora_store_def movie1396_def)
qed

theorem removeAt_first_match_witness:
  "is_record movie5
   \<and> getWatchLater (aurora_store [series5, movie5, inception, movie5_retitled])
       = JArr [series5, movie5, inception, movie5_retitled]
   \<and> list_all is_record [series5, movie5, inception, movie5_retitled]
   \<and> removeAt movie5 (aurora_store [series5, movie5, inception, movie5_retitled])
       = Inr (aurora_store [series5, inception, movie5_retitled])
   \<and> getWatchLater (aurora_store [series5, inception, movie5_retitled])
       = JArr (remove_first (same_key movie5) [series5, movie5, inception, movie5_retitled])"
  using removeAt_first_match [of movie5 "aurora_store [series5, movie5, inception, movie5_retitled]"
      "aurora_store [series5, inception, movie5_retitled]"
      "[series5, movie5, inception, movie5_retitled]"]
  by (simp add: movie5_def series5_def inception_def movie5_retitled_def aurora_store_def
      removeAt_def getWatchLater_def same_item_def same_key_def has_key_def get_prop_def splice1_def
      saveWatchLater_def setItem_def JSON_stringify_def WATCH_LATER_KEY_def)

section \<open>Refreshing the controls\<close>

lemma classList_add_idem: "classList_add c (classList_add c cs) = classList_add c cs"
  by (simp add: classList_add_def)

lemma classList_remove_idem: "classList_remove c (classList_remove c cs) = classList_remove c cs"
  by (simp add: classList_remove_def)

lemma updateWatchLaterButtonUI_idem:
  assumes "updateWatchLaterButtonUI btn idv st = Inr btn'"
  shows "updateWatchLaterButtonUI btn' idv st = Inr btn'" "dataset_id btn' = dataset_id btn"
  using assms
  by (auto simp: updateWatchLaterButtonUI_def classList_add_idem classList_remove_idem
      split: sum.splits option.splits if_splits)

lemma forEach_button_idem:
  assumes "\<And>b b'. f b = Inr b' \<Longrightarrow> f b' = Inr b'"
  shows "forEach_button f (snd (forEach_button f bs)) = forEach_button f bs"
proof (induction bs)
  case Nil
  show ?case by simp
next
  case (Cons b bs)
  show ?case
  proof (cases "f b")
    case (Inl e)
    then show ?thesis by simp
  next
    case (Inr b')
    obtain r bs' where rb: "forEach_button f bs = (r, bs')" by (cases "forEach_button f bs")
    with Cons.IH have "forEach_button f bs' = (r, bs')" by simp
    with Inr rb assms [OF Inr] show ?thesis by simp
  qed
qed

text \<open>
  Claim C8. With the store fixed, refreshing all save controls a second time returns what
  the first refresh returned: every control keeps the icon, the class list and the label
  the first run gave it (and a run that raised raises again, on the same controls).
\<close>

theorem refresh_idempotent:
  "updateAllWatchLaterButtons parseInt st (snd (updateAllWatchLaterButtons parseInt st buttons))
     = updateAllWatchLaterButtons parseInt st buttons"
  unfolding updateAllWatchLaterButtons_def
proof (rule forEach_button_idem)
  fix b b'
  assume a: "(let idv = JNum (parseInt (case dataset_id b of None \<Rightarrow> ''undefined'' | Some s \<Rightarrow> s))
              in if truthy idv then updateWatchLaterButtonUI b idv st else Inr b) = Inr b'"
  let ?idv = "JNum (parseInt (case dataset_id b of None \<Rightarrow> ''undefined'' | Some s \<Rightarrow> s))"
  show "(let idv = JNum (parseInt (case dataset_id b' of None \<Rightarrow> ''undefined'' | Some s \<Rightarrow> s))
         in if truthy idv then updateWatchLaterButtonUI b' idv st else Inr b') = Inr b'"
  proof (cases "truthy ?idv")
    case True
    with a have u: "updateWatchLaterButtonUI b ?idv st = Inr b'" by (simp add: Let_def)
    from updateWatchLaterButtonUI_idem [OF u] True show ?thesis by (simp add: Let_def)
  next
    case False
    with a have "b' = b" by (auto simp: Let_def split: if_splits)
    with False show ?thesis by (auto simp: Let_def)
  qed
qed

theorem refresh_idempotent_witness:
  "updateAllWatchLaterButtons parseInt_scenario (sv_store [sv_movie5]) [add_button ''5'', add_button ''27205'']
     = (None,
        [\<lparr>dataset_id = Some ''5'',
          icon_el = Some \<lparr>textContent = ''bookmark'', fontFamily = ''Material Icons''\<rparr>,
          classList = [''btn-icon'', ''card-add-btn'', ''btn-add-list'', ''added''],
          ariaLabel = Some ''Remove from Watch Later''\<rparr>,
         add_button ''27205''])
   \<and> updateAllWatchLaterButtons parseInt_scenario (sv_store [sv_movie5])
        (snd (updateAllWatchLaterButtons parseInt_scenario (sv_store [sv_movie5])
                [add_button ''5'', add_button ''27205'']))
     = updateAllWatchLaterButtons parseInt_scenario (sv_store [sv_movie5])
         [add_button ''5'', add_button ''27205'']"
  using refresh_idempotent [of parseInt_scenario "sv_store [sv_movie5]"
      "[add_button ''5'', add_button ''27205'']"]
  by (simp add: updateAllWatchLaterButtons_def updateWatchLaterButtonUI_def checkWatchLaterStatus_def
      getWatchLaterList_def sv_store_def sv_movie5_def add_button_def parseInt_scenario_def
      id_match_def get_prop_def classList_add_def classList_remove_def)

section \<open>The two stores side by side\<close>

lemma keys_differ: "WATCH_LATER_KEY \<noteq> WATCH_LATER_KEY_sv"
  by (simp add: WATCH_LATER_KEY_def WATCH_LATER_KEY_sv_def)

lemma setItem_other: "k \<noteq> k' \<Longrightarrow> setItem k' t st k = st k"
  by (simp add: setItem_def)

lemma getWatchLaterList_frame:
  "getWatchLaterList (setItem WATCH_LATER_KEY t st) = getWatchLaterList st"
  using keys_differ by (simp add: getWatchLaterList_def setItem_def)

lemma getWatchLater_frame:
  "getWatchLater (setItem WATCH_LATER_KEY_sv t st) = getWatchLater st"
  using keys_differ by (simp add: getWatchLater_def setItem_def)

lemma removeAt_cases:
  assumes "removeAt x st = Inr st'"
  shows "st' = st \<or> (\<exists>l. st' = setItem WATCH_LATER_KEY (JSON_stringify l) st)"
  using assms
  by (auto simp: removeAt_def saveWatchLater_def split: sum.splits option.splits)

text \<open>
  Claim C9. The two stores use different keys. The Aurora operations (load, toggle, remove)
  read nothing but the value under \<^verbatim>\<open>watchLaterItems\<close> and write no other key; the
  StreamVerse operations (load, membership check, toggle) read nothing but the value under
  \<^verbatim>\<open>streamVerseWatchLater\<close> and write no other key. So an operation of one store leaves
  the list the other store loads as it was.
\<close>

theorem stores_isolated:
  "WATCH_LATER_KEY \<noteq> WATCH_LATER_KEY_sv
   \<and> (toggleWatchLater x st = Inr (b, st') \<longrightarrow>
        getWatchLaterList st' = getWatchLaterList st \<and>
        checkWatchLaterStatus c st' = checkWatchLaterStatus c st \<and>
        (\<forall>k. k \<noteq> WATCH_LATER_KEY \<longrightarrow> st' k = st k))
   \<and> (removeAt x st = Inr st2 \<longrightarrow>
        getWatchLaterList st2 = getWatchLaterList st \<and>
        (\<forall>k. k \<noteq> WATCH_LATER_KEY \<longrightarrow> st2 k = st k))
   \<and> (toggleWatchLater_sv idv itemData st = Inr (r, st3) \<longrightarrow>
        getWatchLater st3 = getWatchLater st \<and> getWatchLater_movie st3 = getWatchLater_movie st \<and>
        saved_precheck a kind st3 = saved_precheck a kind st \<and>
        (\<forall>k. k \<noteq> WATCH_LATER_KEY_sv \<longrightarrow> st3 k = st k))
   \<and> (sa WATCH_LATER_KEY = sb WATCH_LATER_KEY \<longrightarrow>
        getWatchLater sa = getWatchLater sb \<and> getWatchLater_movie sa = getWatchLater_movie sb \<and>
        map_sum id fst (toggleWatchLater x sa) = map_sum id fst (toggleWatchLater x sb))
   \<and> (sa WATCH_LATER_KEY_sv = sb WATCH_LATER_KEY_sv \<longrightarrow>
        getWatchLaterList sa = getWatchLaterList sb \<and>
        checkWatchLaterStatus c sa = checkWatchLaterStatus c sb \<and>
        map_sum id fst (toggleWatchLater_sv idv itemData sa)
          = map_sum id fst (toggleWatchLater_sv idv itemData sb))"
proof (intro conjI impI allI)
  show "WATCH_LATER_KEY \<noteq> WATCH_LATER_KEY_sv" by (rule keys_differ)
next
  assume t: "toggleWatchLater x st = Inr (b, st')"
  then obtain l where l: "st' = setItem WATCH_LATER_KEY (JSON_stringify l) st"
    by (cases rule: toggleWatchLater_cases) blast+
  then show g: "getWatchLaterList st' = getWatchLaterList st" by (simp add: getWatchLaterList_frame)
  then show "checkWatchLaterStatus c st' = checkWatchLaterStatus c st"
    by (simp add: checkWatchLaterStatus_def)
  show "st' k = st k" if "k \<noteq> WATCH_LATER_KEY" for k
    using that l by (simp add: setItem_other)
next
  assume "removeAt x st = Inr st2"
  from removeAt_cases [OF this]
  show "getWatchLaterList st2 = getWatchLaterList st"
    by (auto simp: getWatchLaterList_frame)
next
  fix k
  assume "removeAt x st = Inr st2" "k \<noteq> WATCH_LATER_KEY"
  with removeAt_cases [of x st st2] show "st2 k = st k"
    by (auto simp: setItem_other)
next
  assume t: "toggleWatchLater_sv idv itemData st = Inr (r, st3)"
  then obtain l where l: "st3 = setItem WATCH_LATER_KEY_sv (JSON_stringify l) st"
    by (cases rule: toggleWatchLater_sv_cases) blast+
  then show g: "getWatchLater st3 = getWatchLater st" by (simp add: getWatchLater_frame)
  then show "getWatchLater_movie st3 = getWatchLater_movie st" by (simp add: getWatchLater_movie_eq)
  then show "saved_precheck a kind st3 = saved_precheck a kind st" by (simp add: saved_precheck_def)
  show "st3 k = st k" if "k \<noteq> WATCH_LATER_KEY_sv" for k
    using that l by (simp add: setItem_other)
next
  assume e: "sa WATCH_LATER_KEY = sb WATCH_LATER_KEY"
  then show g: "getWatchLater sa = getWatchLater sb" by (simp add: getWatchLater_def)
  then show "getWatchLater_movie sa = getWatchLater_movie sb" by (simp add: getWatchLater_movie_eq)
  from g show "map_sum id fst (toggleWatchLater x sa) = map_sum id fst (toggleWatchLater x sb)"
    by (simp add: toggleWatchLater_def Let_def split: sum.splits)
next
  assume e: "sa WATCH_LATER_KEY_sv = sb WATCH_LATER_KEY_sv"
  then show g: "getWatchLaterList sa = getWatchLaterList sb" by (simp add: getWatchLaterList_def)
  then show "checkWatchLaterStatus c sa = checkWatchLaterStatus c sb"
    by (simp add: checkWatchLaterStatus_def)
  from g show "map_sum id fst (toggleWatchLater_sv idv itemData sa)
      = map_sum id fst (toggleWatchLater_sv idv itemData sb)"
    by (simp add: toggleWatchLater_sv_def Let_def split: sum.splits)
qed

theorem stores_isolated_witness:
  "toggleWatchLater movie5 (both_stores [series5] [sv_inception])
     = Inr (True, saveWatchLater [series5, movie5] (both_stores [series5] [sv_inception]))
   \<and> getWatchLaterList (saveWatchLater [series5, movie5] (both_stores [series5] [sv_inception]))
       = Inr (JArr [sv_inception])
   \<and> removeAt series5 (both_stores [series5] [sv_inception])
       = Inr (saveWatchLater [] (both_stores [series5] [sv_inception]))
   \<and> getWatchLaterList (saveWatchLater [] (both_stores [series5] [sv_inception]))
       = Inr (JArr [sv_inception])
   \<and> toggleWatchLater_sv (JNum (Fin 27205)) sv_inception (both_stores [series5] [sv_inception])
       = Inr (JUndefined, saveWatchLaterList [] (both_stores [series5] [sv_inception]))
   \<and> getWatchLater (saveWatchLaterList [] (both_stores [series5] [sv_inception])) = JArr [series5]
   \<and> getWatchLater ((both_stores [series5] [sv_inception])(''lastSelectedEpisode_5_1'' \<mapsto> BadText))
       = JArr [series5]
   \<and> getWatchLaterList ((both_stores [series5] [sv_inception])(''lastSelectedEpisode_5_1'' \<mapsto> BadText))
       = Inr (JArr [sv_inception])"
proof -
  let ?S = "both_stores [series5] [sv_inception]"
  let ?T = "?S(''lastSelectedEpisode_5_1'' \<mapsto> BadText)"
  have a: "getWatchLater ?S = JArr [series5]"
    by (simp add: series5_def both_stores_def getWatchLater_def WATCH_LATER_KEY_def
        WATCH_LATER_KEY_sv_def)
  have l: "getWatchLaterList ?S = Inr (JArr [sv_inception])"
    by (simp add: sv_inception_def both_stores_def getWatchLaterList_def)
  have t: "toggleWatchLater movie5 ?S = Inr (True, saveWatchLater [series5, movie5] ?S)"
    unfolding toggleWatchLater_def a
    by (simp add: movie5_def series5_def same_item_def get_prop_def push_def saveWatchLater_def)
  have r: "removeAt series5 ?S = Inr (saveWatchLater [] ?S)"
    unfolding removeAt_def a
    by (simp add: series5_def same_item_def get_prop_def splice1_def)
  have v: "toggleWatchLater_sv (JNum (Fin 27205)) sv_inception ?S
             = Inr (JUndefined, saveWatchLaterList [] ?S)"
    unfolding toggleWatchLater_sv_def l
    by (simp add: sv_inception_def id_match_def get_prop_def splice1_def)
  have k: "?S WATCH_LATER_KEY = ?T WATCH_LATER_KEY" "?S WATCH_LATER_KEY_sv = ?T WATCH_LATER_KEY_sv"
    by (simp_all add: WATCH_LATER_KEY_def WATCH_LATER_KEY_sv_def)
  note i = stores_isolated [where st = ?S and sa = ?S and sb = ?T]
  have "getWatchLaterList (saveWatchLater [series5, movie5] ?S) = getWatchLaterList ?S"
    using i [where x = movie5 and b = True and st' = "saveWatchLater [series5, movie5] ?S"] t
    by blast
  moreover have "getWatchLaterList (saveWatchLater [] ?S) = getWatchLaterList ?S"
    using i [where x = series5 and ?st2.0 = "saveWatchLater [] ?S"] r by blast
  moreover have "getWatchLater (saveWatchLaterList [] ?S) = getWatchLater ?S"
    using i [where idv = "JNum (Fin 27205)" and itemData = sv_inception and r = JUndefined
        and ?st3.0 = "saveWatchLaterList [] ?S"] v
    by blast
  moreover have "getWatchLater ?S = getWatchLater ?T" "getWatchLaterList ?S = getWatchLaterList ?T"
    using i k by blast+
  ultimately show ?thesis using a l t r v by simp
qed

section \<open>What membership depends on\<close>

lemma same_key_key_of: "same_key x i = (strict_eq (fst (key_of i)) (fst (key_of x)) \<and>
    strict_eq (snd (key_of i)) (snd (key_of x)))"
  by (simp add: same_key_def has_key_def key_of_def)

lemma same_item_key_of:
  assumes "is_record x" "is_record y" "is_record i" "is_record j"
    "key_of x = key_of y" "key_of i = key_of j"
  shows "same_item x i = same_item y j"
  using assms by (simp add: same_item_eq is_record_not_nullish same_key_key_of)

lemma findIndex_key_of:
  assumes "is_record x" "is_record y" "key_of x = key_of y"
  shows "list_all is_record xs \<Longrightarrow> list_all is_record ys \<Longrightarrow> map key_of xs = map key_of ys \<Longrightarrow>
     findIndex (same_item x) xs = findIndex (same_item y) ys"
proof (induction xs arbitrary: ys)
  case Nil
  then show ?case by simp
next
  case (Cons i xs)
  then obtain j ys' where ys: "ys = j # ys'" by (cases ys) auto
  with Cons.prems have "same_item x i = same_item y j"
    using assms by (intro same_item_key_of) simp_all
  moreover have "findIndex (same_item x) xs = findIndex (same_item y) ys'"
    using Cons.prems ys by (intro Cons.IH) simp_all
  ultimately show ?case by (simp add: ys split: sum.splits bool.splits)
qed

lemma some_js_key_of:
  assumes "is_record x" "is_record y" "key_of x = key_of y"
  shows "list_all is_record xs \<Longrightarrow> list_all is_record ys \<Longrightarrow> map key_of xs = map key_of ys \<Longrightarrow>
     some_js (same_item x) xs = some_js (same_item y) ys"
proof (induction xs arbitrary: ys)
  case Nil
  then show ?case by simp
next
  case (Cons i xs)
  then obtain j ys' where ys: "ys = j # ys'" by (cases ys) auto
  with Cons.prems have "same_item x i = same_item y j"
    using assms by (intro same_item_key_of) simp_all
  moreover have "some_js (same_item x) xs = some_js (same_item y) ys'"
    using Cons.prems ys by (intro Cons.IH) simp_all
  ultimately show ?case by (simp add: ys split: sum.splits bool.splits)
qed

lemma some_js_total:
  "(\<forall>i\<in>set ys. \<exists>c. p i = Inr c) \<Longrightarrow> \<exists>c. some_js p ys = Inr c"
  by (induction ys) (auto split: bool.splits)

lemma key_match_same_item:
  "\<not> nullish x \<Longrightarrow> key_match (own_prop x ''id'') (own_prop x ''media_type'') = same_item x"
  by (rule ext) (simp add: key_match_eq same_item_eq same_key_def)

text \<open>
  Claim C10. In the Aurora store the flag of a toggle and the membership pre-checks depend
  on the \<^verbatim>\<open>id\<close> and \<^verbatim>\<open>media_type\<close> fields only: two runs on lists of records that
  agree, position by position, on these two fields, with items that agree on them, return
  the same flag and the same pre-check, whatever the other fields hold; and both return.
\<close>

theorem membership_noninterference:
  "getWatchLater st1 = JArr xs \<and> getWatchLater st2 = JArr ys \<and>
   list_all is_record xs \<and> list_all is_record ys \<and> map key_of xs = map key_of ys \<and>
   is_record x \<and> is_record y \<and> key_of x = key_of y
   \<longrightarrow> map_sum id fst (toggleWatchLater x st1) = map_sum id fst (toggleWatchLater y st2)
     \<and> (\<exists>flag. map_sum id fst (toggleWatchLater x st1) = Inr flag)
     \<and> card_saved x st1 = card_saved y st2
     \<and> saved_precheck (own_prop x ''id'') (own_prop x ''media_type'') st1
         = saved_precheck (own_prop y ''id'') (own_prop y ''media_type'') st2
     \<and> (\<exists>saved. card_saved x st1 = Inr saved)"
proof (intro impI)
  assume a: "getWatchLater st1 = JArr xs \<and> getWatchLater st2 = JArr ys \<and>
   list_all is_record xs \<and> list_all is_record ys \<and> map key_of xs = map key_of ys \<and>
   is_record x \<and> is_record y \<and> key_of x = key_of y"
  then have l1: "getWatchLater st1 = JArr xs" and l2: "getWatchLater st2 = JArr ys"
    and rx: "list_all is_record xs" and ry: "list_all is_record ys"
    and k: "map key_of xs = map key_of ys"
    and x: "is_record x" and y: "is_record y" and kx: "key_of x = key_of y"
    by simp_all
  have f: "findIndex (same_item x) xs = findIndex (same_item y) ys"
    using x y kx rx ry k by (rule findIndex_key_of)
  have s: "some_js (same_item x) xs = some_js (same_item y) ys"
    using x y kx rx ry k by (rule some_js_key_of)
  have tot: "\<forall>i\<in>set xs. \<exists>c. same_item x i = Inr c"
    using rx x by (auto simp: same_item_eq list_all_iff is_record_not_nullish)
  have t: "map_sum id fst (toggleWatchLater x st1) = map_sum id fst (toggleWatchLater y st2)"
    using l1 l2 f by (simp add: toggleWatchLater_def Let_def split: sum.splits)
  moreover have "\<exists>flag. map_sum id fst (toggleWatchLater x st1) = Inr flag"
    using toggleWatchLater_total [OF x l1 rx] by auto
  moreover have c: "card_saved x st1 = card_saved y st2"
    using l1 l2 s by (simp add: card_saved_eq)
  moreover have "saved_precheck (own_prop x ''id'') (own_prop x ''media_type'') st1
         = saved_precheck (own_prop y ''id'') (own_prop y ''media_type'') st2"
    using l1 l2 s x y
    by (simp add: saved_precheck_eq key_match_same_item is_record_not_nullish)
  moreover have "\<exists>saved. card_saved x st1 = Inr saved"
    using some_js_total [OF tot] l1 by (simp add: card_saved_eq)
  ultimately show "map_sum id fst (toggleWatchLater x st1) = map_sum id fst (toggleWatchLater y st2)
     \<and> (\<exists>flag. map_sum id fst (toggleWatchLater x st1) = Inr flag)
     \<and> card_saved x st1 = card_saved y st2
     \<and> saved_precheck (own_prop x ''id'') (own_prop x ''media_type'') st1
         = saved_precheck (own_prop y ''id'') (own_prop y ''media_type'') st2
     \<and> (\<exists>saved. card_saved x st1 = Inr saved)"
    by blast
qed

theorem membership_noninterference_witness:
  "getWatchLater (aurora_store [series5, movie5]) = JArr [series5, movie5]
   \<and> getWatchLater (aurora_store [series5, movie5_retitled]) = JArr [series5, movie5_retitled]
   \<and> map key_of [series5, movie5] = map key_of [series5, movie5_retitled]
   \<and> key_of movie5_retitled = key_of movie5
   \<and> map_sum id fst (toggleWatchLater movie5_retitled (aurora_store [series5, movie5])) = Inr False
   \<and> map_sum id fst (toggleWatchLater movie5 (aurora_store [series5, movie5_retitled])) = Inr False
   \<and> card_saved movie5_retitled (aurora_store [series5, movie5]) = Inr True
   \<and> card_saved movie5 (aurora_store [series5, movie5_retitled]) = Inr True"
  using membership_noninterference [of "aurora_store [series5, movie5]" "[series5, movie5]"
      "aurora_store [series5, movie5_retitled]" "[series5, movie5_retitled]" movie5_retitled movie5]
  by (simp add: movie5_def series5_def movie5_retitled_def aurora_store_def key_of_def
      toggleWatchLater_def card_saved_def getWatchLater_def same_item_def get_prop_def
      push_def splice1_def setItem_def JSON_stringify_def WATCH_LATER_KEY_def)

end
